theory Spec2Isabelle
  imports Main "HOL-Library.Sublist"
begin

section \<open>Data model (apps/api/src/db.ts)\<close>

text \<open>
  Identifiers are the opaque strings of the TEXT PRIMARY KEY columns. A timestamp is one
  reading of the clock; \<open>now()\<close> prints it as an ISO-8601 string, and only equality of
  readings matters below.
\<close>

type_synonym ident = string
type_synonym timestamp = nat

datatype StepType = HTTP | DELAY | MANUAL

datatype RunStatus = PENDING | RUNNING | SUCCEEDED | FAILED

datatype EventType =
    RUN_STARTED | STEP_STARTED | STEP_SUCCEEDED | STEP_FAILED | RUN_SUCCEEDED | RUN_FAILED

text \<open>
  A step's \<open>config\<close> is a JSON value. The column holds \<open>JSON.stringify(config)\<close> and every
  read parses it again, so the model keeps the value itself. Numbers are kept as integers:
  the only thing the code below asks of a number is whether it is zero.
\<close>

datatype json =
    JNull | JBool bool | JNum int | JStr string | JArr "json list" | JObj "(string \<times> json) list"

record WorkflowRow =
  wf_id :: ident
  wf_name :: string
  wf_description :: "string option"
  wf_createdAt :: timestamp

record WorkflowStep =
  ws_id :: ident
  ws_workflowId :: ident
  ws_name :: string
  ws_type :: StepType
  ws_config :: json
  ws_order :: int

record Workflow =
  w_id :: ident
  w_name :: string
  w_description :: "string option"
  w_createdAt :: timestamp
  w_steps :: "WorkflowStep list"

record WorkflowRun =
  wr_id :: ident
  wr_workflowId :: ident
  wr_status :: RunStatus
  wr_createdAt :: timestamp
  wr_startedAt :: "timestamp option"
  wr_finishedAt :: "timestamp option"

record StepRun =
  sr_id :: ident
  sr_workflowRunId :: ident
  sr_workflowStepId :: ident
  sr_status :: RunStatus
  sr_startedAt :: "timestamp option"
  sr_finishedAt :: "timestamp option"

record Event =
  ev_id :: ident
  ev_workflowRunId :: ident
  ev_stepRunId :: "ident option"
  ev_type :: EventType
  ev_message :: string
  ev_createdAt :: timestamp

text \<open>
  The five tables, each a list of rows in insertion (rowid) order. The schema's
  constraints are enforced as better-sqlite3 enforces them: PRIMARY KEY uniqueness, and
  the FOREIGN KEY clauses with their ON DELETE CASCADE (foreign-key enforcement is on by
  default in that driver).
\<close>

record database =
  workflows :: "WorkflowRow list"
  workflow_steps :: "WorkflowStep list"
  workflow_runs :: "WorkflowRun list"
  step_runs :: "StepRun list"
  events :: "Event list"

text \<open>
  The world of the API process: the database, the executor's \<open>activeRuns\<close> set, and the
  two things the code reads from outside, the identifier generator \<open>nanoid()\<close> and the
  clock behind \<open>now()\<close>. Each is a sequence of readings with the number already consumed.
\<close>

record world =
  db :: database
  activeRuns :: "ident set"
  nano :: "nat \<Rightarrow> ident"
  nano_used :: nat
  clock :: "nat \<Rightarrow> timestamp"
  clock_used :: nat

datatype error = Error string | SqliteError string

definition err_message :: "error \<Rightarrow> string" where
  "err_message e = (case e of Error m \<Rightarrow> m | SqliteError m \<Rightarrow> m)"

definition nanoid :: "world \<Rightarrow> ident \<times> world" where
  "nanoid w = (nano w (nano_used w), w\<lparr>nano_used := Suc (nano_used w)\<rparr>)"

definition now :: "world \<Rightarrow> timestamp \<times> world" where
  "now w = (clock w (clock_used w), w\<lparr>clock_used := Suc (clock_used w)\<rparr>)"

definition unique_failed :: "string \<Rightarrow> error" where
  "unique_failed col = SqliteError (''UNIQUE constraint failed: '' @ col)"

definition fk_failed :: error where
  "fk_failed = SqliteError ''FOREIGN KEY constraint failed''"

section \<open>Store: reads\<close>

definition listWorkflowSteps :: "ident \<Rightarrow> database \<Rightarrow> WorkflowStep list" where
  \<comment> \<open>ORDER BY step_order ASC; rows of equal order are kept in rowid order.\<close>
  "listWorkflowSteps workflowId d =
     sort_key ws_order (filter (\<lambda>r. ws_workflowId r = workflowId) (workflow_steps d))"

definition getWorkflow :: "ident \<Rightarrow> database \<Rightarrow> Workflow option" where
  "getWorkflow i d =
     (case find (\<lambda>r. wf_id r = i) (workflows d) of
        None \<Rightarrow> None
      | Some row \<Rightarrow> Some \<lparr>w_id = wf_id row, w_name = wf_name row,
          w_description = wf_description row, w_createdAt = wf_createdAt row,
          w_steps = listWorkflowSteps i d\<rparr>)"

definition getRun :: "ident \<Rightarrow> database \<Rightarrow> WorkflowRun option" where
  "getRun i d = find (\<lambda>r. wr_id r = i) (workflow_runs d)"

definition listStepRuns :: "ident \<Rightarrow> database \<Rightarrow> StepRun list" where
  "listStepRuns runId d = filter (\<lambda>r. sr_workflowRunId r = runId) (step_runs d)"

definition getStepRunById :: "ident \<Rightarrow> database \<Rightarrow> StepRun option" where
  "getStepRunById i d = find (\<lambda>r. sr_id r = i) (step_runs d)"

definition getStepRunsMap :: "ident \<Rightarrow> database \<Rightarrow> (ident \<rightharpoonup> StepRun)" where
  \<comment> \<open>Object.fromEntries: a later entry with the same key replaces an earlier one.\<close>
  "getStepRunsMap runId d =
     map_of (rev (map (\<lambda>s. (sr_workflowStepId s, s)) (listStepRuns runId d)))"

definition eventsOf :: "ident \<Rightarrow> database \<Rightarrow> Event list" where
  \<comment> \<open>The events of one run, in the order they were appended.\<close>
  "eventsOf runId d = filter (\<lambda>e. ev_workflowRunId e = runId) (events d)"

section \<open>Store: status updates and the event journal\<close>

definition coalesce :: "'a option \<Rightarrow> 'a option \<Rightarrow> 'a option" where
  "coalesce a b = (case a of Some x \<Rightarrow> Some x | None \<Rightarrow> b)"

definition isTerminal :: "RunStatus \<Rightarrow> bool" where
  "isTerminal s = (s = SUCCEEDED \<or> s = FAILED)"

definition read_finished :: "RunStatus \<Rightarrow> world \<Rightarrow> timestamp option \<times> world" where
  \<comment> \<open>status === "SUCCEEDED" || status === "FAILED" ? now() : null\<close>
  "read_finished status w =
     (if status = SUCCEEDED \<or> status = FAILED
      then (let (t, w') = now w in (Some t, w')) else (None, w))"

definition read_started :: "RunStatus \<Rightarrow> world \<Rightarrow> timestamp option \<times> world" where
  \<comment> \<open>status === "RUNNING" ? now() : null\<close>
  "read_started status w =
     (if status = RUNNING then (let (t, w') = now w in (Some t, w')) else (None, w))"

definition updateRunStatus :: "ident \<Rightarrow> RunStatus \<Rightarrow> world \<Rightarrow> world" where
  "updateRunStatus runId status w =
     (let (finished, w1) = read_finished status w;
          (started, w2) = read_started status w1
      in w2\<lparr>db := (db w2)\<lparr>workflow_runs :=
           map (\<lambda>r. if wr_id r = runId
                     then r\<lparr>wr_status := status,
                            wr_startedAt := coalesce (wr_startedAt r) started,
                            wr_finishedAt := coalesce (wr_finishedAt r) finished\<rparr>
                     else r)
               (workflow_runs (db w2))\<rparr>\<rparr>)"

definition updateStepRunStatus :: "ident \<Rightarrow> RunStatus \<Rightarrow> world \<Rightarrow> world" where
  "updateStepRunStatus stepRunId status w =
     (let (finished, w1) = read_finished status w;
          (started, w2) = read_started status w1
      in w2\<lparr>db := (db w2)\<lparr>step_runs :=
           map (\<lambda>r. if sr_id r = stepRunId
                     then r\<lparr>sr_status := status,
                            sr_startedAt := coalesce (sr_startedAt r) started,
                            sr_finishedAt := coalesce (sr_finishedAt r) finished\<rparr>
                     else r)
               (step_runs (db w2))\<rparr>\<rparr>)"

record EventInput =
  in_workflowRunId :: ident
  in_stepRunId :: "ident option"
  in_type :: EventType
  in_message :: string

definition insertEvent :: "Event \<Rightarrow> database \<Rightarrow> error + database" where
  "insertEvent e d =
     (if ev_id e \<in> set (map ev_id (events d)) then Inl (unique_failed ''events.id'')
      else if ev_workflowRunId e \<notin> set (map wr_id (workflow_runs d)) then Inl fk_failed
      else if (case ev_stepRunId e of None \<Rightarrow> False
               | Some s \<Rightarrow> s \<notin> set (map sr_id (step_runs d))) then Inl fk_failed
      else Inr (d\<lparr>events := events d @ [e]\<rparr>))"

definition appendEvent :: "EventInput \<Rightarrow> world \<Rightarrow> error option \<times> world" where
  \<comment> \<open>None: the row was inserted. Some e: the INSERT threw e and inserted nothing.\<close>
  "appendEvent inp w =
     (let (i, w1) = nanoid w;
          (t, w2) = now w1;
          e = \<lparr>ev_id = i, ev_workflowRunId = in_workflowRunId inp,
               ev_stepRunId = in_stepRunId inp, ev_type = in_type inp,
               ev_message = in_message inp, ev_createdAt = t\<rparr>
      in case insertEvent e (db w2) of
           Inl err \<Rightarrow> (Some err, w2)
         | Inr d \<Rightarrow> (None, w2\<lparr>db := d\<rparr>))"

definition newEvent :: "EventInput \<Rightarrow> world \<Rightarrow> Event" where
  \<comment> \<open>The row appendEvent builds in world w.\<close>
  "newEvent inp w =
     \<lparr>ev_id = nano w (nano_used w), ev_workflowRunId = in_workflowRunId inp,
      ev_stepRunId = in_stepRunId inp, ev_type = in_type inp,
      ev_message = in_message inp, ev_createdAt = clock w (clock_used w)\<rparr>"

definition accepts :: "database \<Rightarrow> Event \<Rightarrow> bool" where
  \<comment> \<open>The constraints of the events table hold for the row: a new id, an existing run, and
      an existing step run when one is named.\<close>
  "accepts d e =
     (ev_id e \<notin> set (map ev_id (events d))
      \<and> ev_workflowRunId e \<in> set (map wr_id (workflow_runs d))
      \<and> (case ev_stepRunId e of None \<Rightarrow> True | Some s \<Rightarrow> s \<in> set (map sr_id (step_runs d))))"

section \<open>Store: workflows and runs\<close>

record StepInput =
  si_id :: "ident option"
  si_name :: string
  si_type :: StepType
  si_config :: "json option"
  si_order :: int

record CreateInput =
  ci_name :: string
  ci_description :: "string option"
  ci_steps :: "StepInput list"

record UpdateInput =
  ui_id :: ident
  ui_name :: "string option"
  ui_description :: "string option"
  ui_steps :: "StepInput list"

definition config_or_empty :: "json option \<Rightarrow> json" where
  \<comment> \<open>s.config ?? {}: undefined and null both become the empty object.\<close>
  "config_or_empty c = (case c of None \<Rightarrow> JObj [] | Some JNull \<Rightarrow> JObj [] | Some v \<Rightarrow> v)"

definition stepRow :: "ident \<Rightarrow> ident \<Rightarrow> StepInput \<Rightarrow> WorkflowStep" where
  "stepRow i workflowId s =
     \<lparr>ws_id = i, ws_workflowId = workflowId, ws_name = si_name s, ws_type = si_type s,
      ws_config = config_or_empty (si_config s), ws_order = si_order s\<rparr>"

definition insertWorkflow :: "WorkflowRow \<Rightarrow> database \<Rightarrow> error + database" where
  "insertWorkflow r d =
     (if wf_id r \<in> set (map wf_id (workflows d)) then Inl (unique_failed ''workflows.id'')
      else Inr (d\<lparr>workflows := workflows d @ [r]\<rparr>))"

definition insertStep :: "WorkflowStep \<Rightarrow> database \<Rightarrow> error + database" where
  "insertStep s d =
     (if ws_id s \<in> set (map ws_id (workflow_steps d))
      then Inl (unique_failed ''workflow_steps.id'')
      else if ws_workflowId s \<notin> set (map wf_id (workflows d)) then Inl fk_failed
      else Inr (d\<lparr>workflow_steps := workflow_steps d @ [s]\<rparr>))"

fun insertNewSteps :: "ident \<Rightarrow> StepInput list \<Rightarrow> world \<Rightarrow> error option \<times> world" where
  \<comment> \<open>createWorkflow's forEach: every step gets nanoid().\<close>
  "insertNewSteps workflowId [] w = (None, w)"
| "insertNewSteps workflowId (s # ss) w =
     (let (i, w1) = nanoid w
      in case insertStep (stepRow i workflowId s) (db w1) of
           Inl e \<Rightarrow> (Some e, w1)
         | Inr d \<Rightarrow> insertNewSteps workflowId ss (w1\<lparr>db := d\<rparr>))"

fun insertGivenSteps :: "ident \<Rightarrow> StepInput list \<Rightarrow> world \<Rightarrow> error option \<times> world" where
  \<comment> \<open>updateWorkflow's forEach: s.id ?? nanoid().\<close>
  "insertGivenSteps workflowId [] w = (None, w)"
| "insertGivenSteps workflowId (s # ss) w =
     (let (i, w1) = (case si_id s of Some i \<Rightarrow> (i, w) | None \<Rightarrow> nanoid w)
      in case insertStep (stepRow i workflowId s) (db w1) of
           Inl e \<Rightarrow> (Some e, w1)
         | Inr d \<Rightarrow> insertGivenSteps workflowId ss (w1\<lparr>db := d\<rparr>))"

definition createWorkflow :: "CreateInput \<Rightarrow> world \<Rightarrow> (error + Workflow option) \<times> world" where
  \<comment> \<open>A failed transaction is rolled back: the database is the one before the call.\<close>
  "createWorkflow inp w =
     (let (i, w1) = nanoid w;
          (createdAt, w2) = now w1
      in case insertWorkflow \<lparr>wf_id = i, wf_name = ci_name inp,
                wf_description = ci_description inp, wf_createdAt = createdAt\<rparr> (db w2) of
           Inl e \<Rightarrow> (Inl e, w2)
         | Inr d \<Rightarrow>
             (case insertNewSteps i (ci_steps inp) (w2\<lparr>db := d\<rparr>) of
                (Some e, w3) \<Rightarrow> (Inl e, w3\<lparr>db := db w\<rparr>)
              | (None, w3) \<Rightarrow> (Inr (getWorkflow i (db w3)), w3)))"

definition updateWf :: "ident \<Rightarrow> string \<Rightarrow> string option \<Rightarrow> database \<Rightarrow> database" where
  "updateWf i name description d =
     d\<lparr>workflows := map (\<lambda>r. if wf_id r = i
                               then r\<lparr>wf_name := name, wf_description := description\<rparr> else r)
                          (workflows d)\<rparr>"

definition deleteSteps :: "ident \<Rightarrow> database \<Rightarrow> database" where
  \<comment> \<open>DELETE FROM workflow_steps WHERE workflow_id = ?, with the cascade to the step_runs of
      the deleted steps and from those to their events.\<close>
  "deleteSteps workflowId d =
     (let goneSteps = set (map ws_id (filter (\<lambda>s. ws_workflowId s = workflowId) (workflow_steps d)));
          goneRuns = set (map sr_id (filter (\<lambda>r. sr_workflowStepId r \<in> goneSteps) (step_runs d)))
      in d\<lparr>workflow_steps := filter (\<lambda>s. ws_workflowId s \<noteq> workflowId) (workflow_steps d),
           step_runs := filter (\<lambda>r. sr_workflowStepId r \<notin> goneSteps) (step_runs d),
           events := filter (\<lambda>e. case ev_stepRunId e of None \<Rightarrow> True | Some s \<Rightarrow> s \<notin> goneRuns)
                       (events d)\<rparr>)"

definition updateWorkflow :: "UpdateInput \<Rightarrow> world \<Rightarrow> (error + Workflow option) \<times> world" where
  "updateWorkflow inp w =
     (case getWorkflow (ui_id inp) (db w) of
        None \<Rightarrow> (Inl (Error ''Workflow not found''), w)
      | Some existing \<Rightarrow>
          (let d1 = updateWf (ui_id inp) (case ui_name inp of Some n \<Rightarrow> n | None \<Rightarrow> w_name existing)
                      (coalesce (ui_description inp) (w_description existing)) (db w);
               d2 = deleteSteps (ui_id inp) d1
           in case insertGivenSteps (ui_id inp) (ui_steps inp) (w\<lparr>db := d2\<rparr>) of
                (Some e, w1) \<Rightarrow> (Inl e, w1\<lparr>db := db w\<rparr>)
              | (None, w1) \<Rightarrow> (Inr (getWorkflow (ui_id inp) (db w1)), w1)))"

definition insertRun :: "WorkflowRun \<Rightarrow> database \<Rightarrow> error + database" where
  "insertRun r d =
     (if wr_id r \<in> set (map wr_id (workflow_runs d)) then Inl (unique_failed ''workflow_runs.id'')
      else if wr_workflowId r \<notin> set (map wf_id (workflows d)) then Inl fk_failed
      else Inr (d\<lparr>workflow_runs := workflow_runs d @ [r]\<rparr>))"

definition insertStepRun :: "StepRun \<Rightarrow> database \<Rightarrow> error + database" where
  "insertStepRun r d =
     (if sr_id r \<in> set (map sr_id (step_runs d)) then Inl (unique_failed ''step_runs.id'')
      else if sr_workflowRunId r \<notin> set (map wr_id (workflow_runs d)) then Inl fk_failed
      else if sr_workflowStepId r \<notin> set (map ws_id (workflow_steps d)) then Inl fk_failed
      else Inr (d\<lparr>step_runs := step_runs d @ [r]\<rparr>))"

fun insertStepRuns :: "ident \<Rightarrow> WorkflowStep list \<Rightarrow> world \<Rightarrow> error option \<times> world" where
  \<comment> \<open>steps.forEach((s) => insertStepRun.run(nanoid(), id, s.id))\<close>
  "insertStepRuns runId [] w = (None, w)"
| "insertStepRuns runId (s # ss) w =
     (let (i, w1) = nanoid w
      in case insertStepRun \<lparr>sr_id = i, sr_workflowRunId = runId, sr_workflowStepId = ws_id s,
                sr_status = PENDING, sr_startedAt = None, sr_finishedAt = None\<rparr> (db w1) of
           Inl e \<Rightarrow> (Some e, w1)
         | Inr d \<Rightarrow> insertStepRuns runId ss (w1\<lparr>db := d\<rparr>))"

definition createRun :: "ident \<Rightarrow> world \<Rightarrow> (error + WorkflowRun option) \<times> world" where
  \<comment> \<open>The run row is inserted by a statement of its own; only the step runs are inserted
      inside db.transaction, so a failure there rolls back the step runs alone.\<close>
  "createRun workflowId w =
     (let (i, w1) = nanoid w;
          (createdAt, w2) = now w1
      in case insertRun \<lparr>wr_id = i, wr_workflowId = workflowId, wr_status = PENDING,
                wr_createdAt = createdAt, wr_startedAt = None, wr_finishedAt = None\<rparr> (db w2) of
           Inl e \<Rightarrow> (Inl e, w2)
         | Inr d \<Rightarrow>
             (let steps = listWorkflowSteps workflowId d
              in case insertStepRuns i steps (w2\<lparr>db := d\<rparr>) of
                   (Some e, w3) \<Rightarrow> (Inl e, w3\<lparr>db := d\<rparr>)
                 | (None, w3) \<Rightarrow> (Inr (getRun i (db w3)), w3)))"

section \<open>Executor (apps/api/src/executor.ts)\<close>

text \<open>
  The executor's functions are \<open>async\<close>: each runs without interruption up to its next
  \<open>await\<close>, where other work of the process may be scheduled. A suspended call is a
  \<open>task\<close>: the \<open>await\<close> it stopped at and the local variables it resumes with. A scheduling
  pass \<open>execute(runId)\<close> keeps the step list and the StepRun map it loaded once, so a task
  carries those snapshots. The handlers' waiting (the timer of \<open>sleep\<close>, the response of
  \<open>fetch\<close>) comes from outside; what \<open>fetch\<close> delivers is the argument of \<open>resume\<close>.
  \<open>publishRun\<close> only signals the broker: it reads and writes nothing of the world, and
  is present below as the \<open>await\<close> it ends with.
\<close>

datatype fetch_result = Response nat | Rejected string

type_synonym stepRunMap = "ident \<rightharpoonup> StepRun"

datatype task =
    ExecPublishStart ident ident
      \<comment> \<open>execute at line 37: runId, workflow.id\<close>
  | ExecPublishManual ident
      \<comment> \<open>execute at line 65, about to return\<close>
  | StepPublishStarted ident StepRun StepType json "WorkflowStep list" stepRunMap
      \<comment> \<open>runNonManualStep at line 92: runId, stepRun, type, config; the steps left, the map\<close>
  | StepSleeping ident StepRun "WorkflowStep list" stepRunMap
      \<comment> \<open>runNonManualStep at line 97\<close>
  | StepFetching ident StepRun json json "WorkflowStep list" stepRunMap
      \<comment> \<open>runNonManualStep at line 102: url and method of the request\<close>
  | StepPublishDone ident "WorkflowStep list" stepRunMap
      \<comment> \<open>runNonManualStep at line 112 or 123\<close>
  | ExecPublishFinal ident
      \<comment> \<open>execute at line 76\<close>
  | ExecSettled ident "error option"
      \<comment> \<open>execute has returned (None) or thrown; the finally callback is pending\<close>
  | CompletePublishStep StepRun ident bool
      \<comment> \<open>completeManualStep at line 139: stepRun, stepRunId, success\<close>
  | CompletePublishRun ident
      \<comment> \<open>completeManualStep at line 148\<close>
  | CompleteEnqueued ident
      \<comment> \<open>completeManualStep at line 153\<close>
  | CompleteReturned "error + StepRun option"
      \<comment> \<open>completeManualStep has returned or thrown\<close>
  | StartRunEnqueued "WorkflowRun"
      \<comment> \<open>the startRun resolver awaiting enqueueRun\<close>
  | StartRunReturned "error + WorkflowRun"

definition getField :: "json \<Rightarrow> string \<Rightarrow> json option" where
  \<comment> \<open>config?.key: undefined (None) unless config is an object that has the key.\<close>
  "getField c k = (case c of JObj kvs \<Rightarrow> map_of kvs k | _ \<Rightarrow> None)"

definition truthy :: "json option \<Rightarrow> bool" where
  "truthy v = (case v of None \<Rightarrow> False | Some JNull \<Rightarrow> False | Some (JBool b) \<Rightarrow> b
     | Some (JNum n) \<Rightarrow> n \<noteq> 0 | Some (JStr s) \<Rightarrow> s \<noteq> [] | Some _ \<Rightarrow> True)"

definition orDefault :: "json option \<Rightarrow> json \<Rightarrow> json" where
  \<comment> \<open>v ?? d\<close>
  "orDefault v d = (case v of None \<Rightarrow> d | Some JNull \<Rightarrow> d | Some x \<Rightarrow> x)"

function string_of_nat :: "nat \<Rightarrow> string" where
  "string_of_nat n =
     (if n < 10 then [''0123456789'' ! n]
      else string_of_nat (n div 10) @ [''0123456789'' ! (n mod 10)])"
  by pat_completeness auto
termination
  by (relation "measure id") auto

declare string_of_nat.simps [simp del]

definition stepSucceeded :: "ident \<Rightarrow> StepRun \<Rightarrow> world \<Rightarrow> error option \<times> world" where
  \<comment> \<open>lines 105-111, the end of the try block\<close>
  "stepSucceeded runId stepRun w =
     appendEvent \<lparr>in_workflowRunId = runId, in_stepRunId = Some (sr_id stepRun),
                  in_type = STEP_SUCCEEDED, in_message = ''Step succeeded''\<rparr>
       (updateStepRunStatus (sr_id stepRun) SUCCEEDED w)"

definition stepFailed :: "ident \<Rightarrow> StepRun \<Rightarrow> error \<Rightarrow> world \<Rightarrow> error option \<times> world" where
  \<comment> \<open>lines 114-122, the catch block\<close>
  "stepFailed runId stepRun err w =
     (let (r, w1) = appendEvent \<lparr>in_workflowRunId = runId, in_stepRunId = Some (sr_id stepRun),
                       in_type = STEP_FAILED, in_message = ''Step failed: '' @ err_message err\<rparr>
                     (updateStepRunStatus (sr_id stepRun) FAILED w)
      in case r of
           Some e \<Rightarrow> (Some e, w1)
         | None \<Rightarrow> appendEvent \<lparr>in_workflowRunId = runId, in_stepRunId = None,
                       in_type = RUN_FAILED, in_message = ''Run failed''\<rparr>
                     (updateRunStatus runId FAILED w1))"

definition finishStep ::
  "ident \<Rightarrow> StepRun \<Rightarrow> WorkflowStep list \<Rightarrow> stepRunMap \<Rightarrow> error option \<Rightarrow> world \<Rightarrow> task \<times> world" where
  \<comment> \<open>The rest of try/catch once the handler is over: thrown is what the handler threw.
      What the try block throws is caught; what the catch block throws leaves execute.\<close>
  "finishStep runId stepRun rest m thrown w =
     (let (r, w1) = (case thrown of None \<Rightarrow> stepSucceeded runId stepRun w | Some e \<Rightarrow> (Some e, w))
      in case r of
           None \<Rightarrow> (StepPublishDone runId rest m, w1)
         | Some e \<Rightarrow>
             (case stepFailed runId stepRun e w1 of
                (None, w2) \<Rightarrow> (StepPublishDone runId rest m, w2)
              | (Some e', w2) \<Rightarrow> (ExecSettled runId (Some e'), w2)))"

definition runNonManualStep ::
  "ident \<Rightarrow> StepRun \<Rightarrow> StepType \<Rightarrow> json \<Rightarrow> WorkflowStep list \<Rightarrow> stepRunMap \<Rightarrow> world \<Rightarrow> task \<times> world" where
  \<comment> \<open>lines 85-92\<close>
  "runNonManualStep runId stepRun type config rest m w =
     (let (r, w1) = appendEvent \<lparr>in_workflowRunId = runId, in_stepRunId = Some (sr_id stepRun),
                       in_type = STEP_STARTED, in_message = ''Step started''\<rparr>
                     (updateStepRunStatus (sr_id stepRun) RUNNING w)
      in case r of
           Some e \<Rightarrow> (ExecSettled runId (Some e), w1)
         | None \<Rightarrow> (StepPublishStarted runId stepRun type config rest m, w1))"

datatype entry = Own StepRun | Inherited | Absent

definition objectPrototypeKeys :: "string list" where
  \<comment> \<open>The property names every plain object inherits from Object.prototype.\<close>
  "objectPrototypeKeys =
     [''constructor'', ''__defineGetter__'', ''__defineSetter__'', ''hasOwnProperty'',
      ''__lookupGetter__'', ''__lookupSetter__'', ''isPrototypeOf'', ''propertyIsEnumerable'',
      ''toString'', ''valueOf'', ''__proto__'', ''toLocaleString'']"

definition lookupEntry :: "stepRunMap \<Rightarrow> ident \<Rightarrow> entry" where
  \<comment> \<open>stepRunMap[step.id] on the plain object that Object.fromEntries built: an entry of
      the map, else the inherited member when the key names one, else undefined.\<close>
  "lookupEntry m k =
     (case m k of
        Some stepRun \<Rightarrow> Own stepRun
      | None \<Rightarrow> if k \<in> set objectPrototypeKeys then Inherited else Absent)"

fun loop :: "ident \<Rightarrow> WorkflowStep list \<Rightarrow> stepRunMap \<Rightarrow> world \<Rightarrow> task \<times> world" where
  \<comment> \<open>lines 42-76: the for loop from the given step on, up to the next await or return.
      An inherited member is truthy and has neither status nor id: a manual step returns
      at line 67; for an automated step updateStepRunStatus(undefined, "RUNNING") has read
      the clock when the driver refuses to bind undefined, and execute throws.\<close>
  "loop runId [] m w =
     (let (r, w1) = appendEvent \<lparr>in_workflowRunId = runId, in_stepRunId = None,
                       in_type = RUN_SUCCEEDED, in_message = ''Run succeeded''\<rparr>
                     (updateRunStatus runId SUCCEEDED w)
      in case r of
           Some e \<Rightarrow> (ExecSettled runId (Some e), w1)
         | None \<Rightarrow> (ExecPublishFinal runId, w1))"
| "loop runId (step # rest) m w =
     (case lookupEntry m (ws_id step) of
        Absent \<Rightarrow> loop runId rest m w
      | Inherited \<Rightarrow>
          if ws_type step = MANUAL then (ExecSettled runId None, w)
          else (ExecSettled runId
                  (Some (Error ''SQLite3 can only bind numbers, strings, bigints, buffers, and null'')),
                snd (now w))
      | Own stepRun \<Rightarrow>
          if sr_status stepRun = SUCCEEDED then loop runId rest m w
          else if sr_status stepRun = FAILED then
            (let (r, w1) = appendEvent \<lparr>in_workflowRunId = runId,
                             in_stepRunId = Some (sr_id stepRun), in_type = RUN_FAILED,
                             in_message = ''Run already failed''\<rparr>
                           (updateRunStatus runId FAILED w)
             in (ExecSettled runId r, w1))
          else if ws_type step = MANUAL then
            (if sr_status stepRun = PENDING then
               (let (r, w1) = appendEvent \<lparr>in_workflowRunId = runId,
                                in_stepRunId = Some (sr_id stepRun), in_type = STEP_STARTED,
                                in_message = ''Manual step '' @ [CHR 0x27] @ ws_name step
                                  @ [CHR 0x27] @ '' awaiting completion''\<rparr> w
                in case r of
                     Some e \<Rightarrow> (ExecSettled runId (Some e), w1)
                   | None \<Rightarrow> (ExecPublishManual runId, w1))
             else (ExecSettled runId None, w))
          else runNonManualStep runId stepRun (ws_type step) (ws_config step) rest m w)"

definition execute :: "ident \<Rightarrow> world \<Rightarrow> task \<times> world" where
  \<comment> \<open>lines 30-37\<close>
  "execute runId w =
     (case getRun runId (db w) of
        None \<Rightarrow> (ExecSettled runId None, w)
      | Some run \<Rightarrow>
          (case getWorkflow (wr_workflowId run) (db w) of
             None \<Rightarrow> (ExecSettled runId None, w)
           | Some workflow \<Rightarrow>
               (let (r, w1) = appendEvent \<lparr>in_workflowRunId = runId, in_stepRunId = None,
                                in_type = RUN_STARTED, in_message = ''Run started''\<rparr>
                              (updateRunStatus runId RUNNING w)
                in case r of
                     Some e \<Rightarrow> (ExecSettled runId (Some e), w1)
                   | None \<Rightarrow> (ExecPublishStart runId (w_id workflow), w1))))"

definition enqueueRun :: "ident \<Rightarrow> world \<Rightarrow> task list \<times> world" where
  \<comment> \<open>The tasks returned are the ones the call started: none, or the one scheduling pass.\<close>
  "enqueueRun runId w =
     (if runId \<in> activeRuns w then ([], w)
      else (let (t, w1) = execute runId (w\<lparr>activeRuns := insert runId (activeRuns w)\<rparr>)
            in ([t], w1)))"

definition completeManualStep :: "ident \<Rightarrow> bool \<Rightarrow> world \<Rightarrow> task \<times> world" where
  \<comment> \<open>lines 128-139\<close>
  "completeManualStep stepRunId success w =
     (case getStepRunById stepRunId (db w) of
        None \<Rightarrow> (CompleteReturned (Inl (Error ''StepRun not found'')), w)
      | Some stepRun \<Rightarrow>
          if sr_status stepRun = SUCCEEDED \<or> sr_status stepRun = FAILED
          then (CompleteReturned (Inr (Some stepRun)), w)
          else
            (let (r, w1) = appendEvent \<lparr>in_workflowRunId = sr_workflowRunId stepRun,
                             in_stepRunId = Some stepRunId,
                             in_type = (if success then STEP_SUCCEEDED else STEP_FAILED),
                             in_message = (if success then ''Manual step completed''
                                           else ''Manual step failed'')\<rparr>
                           (updateStepRunStatus stepRunId (if success then SUCCEEDED else FAILED) w)
             in case r of
                  Some e \<Rightarrow> (CompleteReturned (Inl e), w1)
                | None \<Rightarrow> (CompletePublishStep stepRun stepRunId success, w1)))"

definition startRun :: "ident \<Rightarrow> world \<Rightarrow> task list \<times> world" where
  \<comment> \<open>The startRun resolver of the API: createRun, the "Run enqueued" event, enqueueRun.\<close>
  "startRun workflowId w =
     (case createRun workflowId w of
        (Inl e, w1) \<Rightarrow> ([StartRunReturned (Inl e)], w1)
      | (Inr None, w1) \<Rightarrow> ([StartRunReturned (Inl (Error ''Cannot read properties of null''))], w1)
      | (Inr (Some run), w1) \<Rightarrow>
          (case appendEvent \<lparr>in_workflowRunId = wr_id run, in_stepRunId = None,
                  in_type = RUN_STARTED, in_message = ''Run enqueued''\<rparr> w1 of
             (Some e, w2) \<Rightarrow> ([StartRunReturned (Inl e)], w2)
           | (None, w2) \<Rightarrow>
               (let (ts, w3) = enqueueRun (wr_id run) w2 in (StartRunEnqueued run # ts, w3))))"

fun resume :: "task \<Rightarrow> fetch_result \<Rightarrow> world \<Rightarrow> task list \<times> world" where
  \<comment> \<open>One task runs from the await it stopped at to its next one. The result lists the task
      as it now stands, followed by any scheduling pass it started; a finished call whose
      result has been taken leaves nothing.\<close>
  "resume (ExecPublishStart runId workflowId) fr w =
     (let steps = listWorkflowSteps workflowId (db w);
          stepRunMap = getStepRunsMap runId (db w);
          (t, w1) = loop runId steps stepRunMap w
      in ([t], w1))"
| "resume (ExecPublishManual runId) fr w = ([ExecSettled runId None], w)"
| "resume (StepPublishStarted runId stepRun type config rest m) fr w =
     (if type = DELAY then ([StepSleeping runId stepRun rest m], w)
      else if type = HTTP then
        (if \<not> truthy (getField config ''url'')
         then (let (t, w1) = finishStep runId stepRun rest m (Some (Error ''Missing url'')) w
               in ([t], w1))
         else ([StepFetching runId stepRun (orDefault (getField config ''url'') JNull)
                  (orDefault (getField config ''method'') (JStr ''GET'')) rest m], w))
      else (let (t, w1) = finishStep runId stepRun rest m None w in ([t], w1)))"
| "resume (StepSleeping runId stepRun rest m) fr w =
     (let (t, w1) = finishStep runId stepRun rest m None w in ([t], w1))"
| "resume (StepFetching runId stepRun url method rest m) fr w =
     (let thrown = (case fr of
                      Rejected msg \<Rightarrow> Some (Error msg)
                    | Response status \<Rightarrow>
                        if 200 \<le> status \<and> status < 300 then None
                        else Some (Error (''HTTP '' @ string_of_nat status)));
          (t, w1) = finishStep runId stepRun rest m thrown w
      in ([t], w1))"
| "resume (StepPublishDone runId rest m) fr w =
     (if map_option wr_status (getRun runId (db w)) = Some FAILED
      then ([ExecSettled runId None], w)
      else (let (t, w1) = loop runId rest m w in ([t], w1)))"
| "resume (ExecPublishFinal runId) fr w = ([ExecSettled runId None], w)"
| "resume (ExecSettled runId e) fr w = ([], w\<lparr>activeRuns := activeRuns w - {runId}\<rparr>)"
| "resume (CompletePublishStep stepRun stepRunId success) fr w =
     (if \<not> success then
        (let (r, w1) = appendEvent \<lparr>in_workflowRunId = sr_workflowRunId stepRun,
                         in_stepRunId = None, in_type = RUN_FAILED,
                         in_message = ''Run failed by manual step''\<rparr>
                       (updateRunStatus (sr_workflowRunId stepRun) FAILED w)
         in case r of
              Some e \<Rightarrow> ([CompleteReturned (Inl e)], w1)
            | None \<Rightarrow> ([CompletePublishRun stepRunId], w1))
      else (let (ts, w1) = enqueueRun (sr_workflowRunId stepRun) w
            in (CompleteEnqueued stepRunId # ts, w1)))"
| "resume (CompletePublishRun stepRunId) fr w =
     ([CompleteReturned (Inr (getStepRunById stepRunId (db w)))], w)"
| "resume (CompleteEnqueued stepRunId) fr w =
     ([CompleteReturned (Inr (getStepRunById stepRunId (db w)))], w)"
| "resume (CompleteReturned r) fr w = ([], w)"
| "resume (StartRunEnqueued run) fr w = ([StartRunReturned (Inr run)], w)"
| "resume (StartRunReturned r) fr w = ([], w)"

section \<open>The process as a transition system\<close>

text \<open>
  The state of the process is the world together with the suspended tasks. An action is
  either a call arriving from the API or one suspended task being resumed.
\<close>

type_synonym system = "world \<times> task list"

datatype action =
    Resume nat fetch_result
  | CallEnqueueRun ident
  | CallCompleteManualStep ident bool
  | CallStartRun ident
  | CallCreateWorkflow CreateInput
  | CallUpdateWorkflow UpdateInput

fun act :: "action \<Rightarrow> system \<Rightarrow> system" where
  "act (Resume k fr) (w, ts) =
     (if k < length ts
      then (let (new, w1) = resume (ts ! k) fr w in (w1, take k ts @ new @ drop (Suc k) ts))
      else (w, ts))"
| "act (CallEnqueueRun runId) (w, ts) = (let (new, w1) = enqueueRun runId w in (w1, ts @ new))"
| "act (CallCompleteManualStep stepRunId success) (w, ts) =
     (let (t, w1) = completeManualStep stepRunId success w in (w1, ts @ [t]))"
| "act (CallStartRun workflowId) (w, ts) = (let (new, w1) = startRun workflowId w in (w1, ts @ new))"
| "act (CallCreateWorkflow inp) (w, ts) = (snd (createWorkflow inp w), ts)"
| "act (CallUpdateWorkflow inp) (w, ts) = (snd (updateWorkflow inp w), ts)"

definition runActions :: "action list \<Rightarrow> system \<Rightarrow> system" where
  "runActions as s = foldl (\<lambda>s a. act a s) s as"

fun scheduling :: "task \<Rightarrow> ident option" where
  \<comment> \<open>The run whose scheduling pass execute(runId) the task is, if it is one.\<close>
  "scheduling (ExecPublishStart runId _) = Some runId"
| "scheduling (ExecPublishManual runId) = Some runId"
| "scheduling (StepPublishStarted runId _ _ _ _ _) = Some runId"
| "scheduling (StepSleeping runId _ _ _) = Some runId"
| "scheduling (StepFetching runId _ _ _ _ _) = Some runId"
| "scheduling (StepPublishDone runId _ _) = Some runId"
| "scheduling (ExecPublishFinal runId) = Some runId"
| "scheduling (ExecSettled runId _) = Some runId"
| "scheduling (CompletePublishStep _ _ _) = None"
| "scheduling (CompletePublishRun _) = None"
| "scheduling (CompleteEnqueued _) = None"
| "scheduling (CompleteReturned _) = None"
| "scheduling (StartRunEnqueued _) = None"
| "scheduling (StartRunReturned _) = None"

definition schedulers :: "task list \<Rightarrow> ident list" where
  "schedulers ts = List.map_filter scheduling ts"

definition oneSchedulerPerRun :: "system \<Rightarrow> bool" where
  \<comment> \<open>No run has two scheduling passes, and the runs that have one are the active set.\<close>
  "oneSchedulerPerRun s =
     (distinct (schedulers (snd s)) \<and> set (schedulers (snd s)) = activeRuns (fst s))"

fun runAlone :: "nat \<Rightarrow> task \<Rightarrow> world \<Rightarrow> task \<times> task list \<times> world" where
  \<comment> \<open>A call carried on through at most n awaits with nothing else scheduled in between:
      the call as it then stands, the scheduling passes it started, the world.\<close>
  "runAlone 0 t w = (t, [], w)"
| "runAlone (Suc n) t w =
     (case resume t (Rejected []) w of
        ([], w1) \<Rightarrow> (t, [], w1)
      | (t1 # started, w1) \<Rightarrow>
          (let (t2, started2, w2) = runAlone n t1 w1 in (t2, started @ started2, w2)))"

section \<open>Generated identifiers\<close>

fun assignIds :: "(nat \<Rightarrow> ident) \<Rightarrow> nat \<Rightarrow> StepInput list \<Rightarrow> ident list" where
  \<comment> \<open>The ids updateWorkflow gives the steps of its input: s.id ?? nanoid(), the generator
      being read from position n on.\<close>
  "assignIds gen n [] = []"
| "assignIds gen n (s # ss) =
     (case si_id s of
        Some i \<Rightarrow> i # assignIds gen n ss
      | None \<Rightarrow> gen n # assignIds gen (Suc n) ss)"

definition rowsOf :: "ident \<Rightarrow> ident list \<Rightarrow> StepInput list \<Rightarrow> WorkflowStep list" where
  \<comment> \<open>The provided steps as rows of workflow workflowId, in the provided order.\<close>
  "rowsOf workflowId ids ss = map (\<lambda>(i, s). stepRow i workflowId s) (zip ids ss)"

fun nextIds :: "(nat \<Rightarrow> ident) \<Rightarrow> nat \<Rightarrow> nat \<Rightarrow> ident list" where
  \<comment> \<open>The next k ids of the generator, read from position n on.\<close>
  "nextIds gen n 0 = []"
| "nextIds gen n (Suc k) = gen n # nextIds gen (Suc n) k"

definition pendingStepRuns :: "ident \<Rightarrow> ident list \<Rightarrow> WorkflowStep list \<Rightarrow> StepRun list" where
  \<comment> \<open>One PENDING StepRun of run runId for each step, with the given ids.\<close>
  "pendingStepRuns runId ids steps =
     map (\<lambda>(i, s). \<lparr>sr_id = i, sr_workflowRunId = runId, sr_workflowStepId = ws_id s,
                      sr_status = PENDING, sr_startedAt = None, sr_finishedAt = None\<rparr>)
         (zip ids steps)"

section \<open>Order of step events\<close>

definition isStepEnd :: "Event \<Rightarrow> bool" where
  "isStepEnd e = (ev_type e = STEP_SUCCEEDED \<or> ev_type e = STEP_FAILED)"

definition isStartOf :: "ident \<Rightarrow> ident option \<Rightarrow> Event \<Rightarrow> bool" where
  "isStartOf runId stepRunId s =
     (ev_type s = STEP_STARTED \<and> ev_stepRunId s = stepRunId \<and> ev_workflowRunId s = runId)"

fun causal :: "Event list \<Rightarrow> Event list \<Rightarrow> bool" where
  \<comment> \<open>causal seen es: every STEP_SUCCEEDED or STEP_FAILED of es has, earlier in seen @ es, a
      STEP_STARTED of the same run and the same stepRunId.\<close>
  "causal seen [] = True"
| "causal seen (e # es) =
     ((if isStepEnd e then list_ex (isStartOf (ev_workflowRunId e) (ev_stepRunId e)) seen else True)
      \<and> causal (seen @ [e]) es)"

definition stepCausal :: "database \<Rightarrow> bool" where
  "stepCausal d = causal [] (events d)"

definition hasStarted :: "ident \<Rightarrow> ident \<Rightarrow> database \<Rightarrow> bool" where
  "hasStarted runId stepRunId d = list_ex (isStartOf runId (Some stepRunId)) (events d)"

fun heldStepRun :: "task \<Rightarrow> (ident \<times> ident) option" where
  \<comment> \<open>The run and the StepRun of a pass that is inside runNonManualStep, between the
      STEP_STARTED it appended and the end of the handler.\<close>
  "heldStepRun (StepPublishStarted runId stepRun _ _ _ _) = Some (runId, sr_id stepRun)"
| "heldStepRun (StepSleeping runId stepRun _ _) = Some (runId, sr_id stepRun)"
| "heldStepRun (StepFetching runId stepRun _ _ _ _) = Some (runId, sr_id stepRun)"
| "heldStepRun _ = None"

definition heldIds :: "task list \<Rightarrow> ident list" where
  "heldIds ts = map snd (List.map_filter heldStepRun ts)"

definition startedTask :: "database \<Rightarrow> task \<Rightarrow> bool" where
  \<comment> \<open>The STEP_STARTED of the StepRun a pass is executing is in the journal, unless the
      StepRun has been deleted since (by the cascade of updateWorkflow), and then the
      journal refuses every event that names it.\<close>
  "startedTask d t =
     (case heldStepRun t of
        None \<Rightarrow> True
      | Some (runId, stepRunId) \<Rightarrow>
          hasStarted runId stepRunId d \<or> stepRunId \<notin> set (map sr_id (step_runs d)))"

definition passesStarted :: "system \<Rightarrow> bool" where
  \<comment> \<open>StepRun ids are unique (the primary key), and every suspended task is a startedTask.\<close>
  "passesStarted s =
     (distinct (map sr_id (step_runs (db (fst s))))
      \<and> list_all (startedTask (db (fst s))) (snd s))"

fun noReuse :: "action \<Rightarrow> system \<Rightarrow> bool" where
  \<comment> \<open>The only action that creates StepRuns is startRun: the ids it will draw for them are
      not ids of StepRuns that suspended passes are executing.\<close>
  "noReuse (CallStartRun workflowId) s =
     list_all (\<lambda>i. i \<notin> set (heldIds (snd s)))
       (nextIds (nano (fst s)) (Suc (nano_used (fst s)))
          (length (listWorkflowSteps workflowId (db (fst s)))))"
| "noReuse _ s = True"

fun reuseFree :: "action list \<Rightarrow> system \<Rightarrow> bool" where
  \<comment> \<open>noReuse holds at every action of the run of as from s.\<close>
  "reuseFree [] s = True"
| "reuseFree (a # as) s = (noReuse a s \<and> reuseFree as (act a s))"

section \<open>What a recorded step failure is\<close>

definition failureRecorded :: "ident \<Rightarrow> ident \<Rightarrow> string \<Rightarrow> world \<Rightarrow> world \<Rightarrow> bool" where
  \<comment> \<open>From world w to world w': the StepRun and the run are FAILED, and the journal has grown
      by exactly a STEP_FAILED of the StepRun, whose message is the description after
      "Step failed: ", and a RUN_FAILED.\<close>
  "failureRecorded runId stepRunId description w w' =
     (map_option sr_status (getStepRunById stepRunId (db w')) = Some FAILED
      \<and> map_option wr_status (getRun runId (db w')) = Some FAILED
      \<and> events (db w') = events (db w) @
           [\<lparr>ev_id = nano w (nano_used w), ev_workflowRunId = runId,
             ev_stepRunId = Some stepRunId, ev_type = STEP_FAILED,
             ev_message = ''Step failed: '' @ description,
             ev_createdAt = clock w (Suc (clock_used w))\<rparr>,
            \<lparr>ev_id = nano w (Suc (nano_used w)), ev_workflowRunId = runId,
             ev_stepRunId = None, ev_type = RUN_FAILED, ev_message = ''Run failed'',
             ev_createdAt = clock w (Suc (Suc (Suc (clock_used w))))\<rparr>])"

definition journalAccepts :: "ident \<Rightarrow> ident \<Rightarrow> world \<Rightarrow> bool" where
  \<comment> \<open>The events table will take the next two rows of the run and the StepRun: both rows
      exist, and the next two generated ids are new and differ.\<close>
  "journalAccepts runId stepRunId w =
     (getRun runId (db w) \<noteq> None \<and> getStepRunById stepRunId (db w) \<noteq> None
      \<and> nano w (nano_used w) \<notin> set (map ev_id (events (db w)))
      \<and> nano w (Suc (nano_used w)) \<notin> set (map ev_id (events (db w)))
      \<and> nano w (Suc (nano_used w)) \<noteq> nano w (nano_used w))"

definition journalGrows :: "database \<Rightarrow> database \<Rightarrow> bool" where
  \<comment> \<open>The journal of d' is the journal of d followed by events that keep the order.\<close>
  "journalGrows d d' =
     (take (length (events d)) (events d') = events d
      \<and> causal (events d) (drop (length (events d)) (events d')))"

section \<open>Example data\<close>

definition exNano :: "nat \<Rightarrow> ident" where
  "exNano n = CHR ''n'' # replicate n CHR ''x''"

definition exClock :: "nat \<Rightarrow> timestamp" where
  "exClock n = 100 + n"

definition exSteps :: "WorkflowStep list" where
  "exSteps =
     [\<lparr>ws_id = ''s1'', ws_workflowId = ''wf'', ws_name = ''approve'', ws_type = MANUAL,
       ws_config = JObj [], ws_order = 0\<rparr>,
      \<lparr>ws_id = ''s2'', ws_workflowId = ''wf'', ws_name = ''sign'', ws_type = MANUAL,
       ws_config = JObj [], ws_order = 1\<rparr>]"

definition exRun :: "RunStatus \<Rightarrow> timestamp option \<Rightarrow> timestamp option \<Rightarrow> WorkflowRun" where
  "exRun s started finished =
     \<lparr>wr_id = ''r'', wr_workflowId = ''wf'', wr_status = s, wr_createdAt = 1,
      wr_startedAt = started, wr_finishedAt = finished\<rparr>"

definition exStepRun :: "ident \<Rightarrow> ident \<Rightarrow> RunStatus \<Rightarrow> timestamp option \<Rightarrow> StepRun" where
  "exStepRun i stepId s finished =
     \<lparr>sr_id = i, sr_workflowRunId = ''r'', sr_workflowStepId = stepId, sr_status = s,
      sr_startedAt = None, sr_finishedAt = finished\<rparr>"

definition exEvent :: "ident \<Rightarrow> ident option \<Rightarrow> EventType \<Rightarrow> string \<Rightarrow> timestamp \<Rightarrow> Event" where
  "exEvent i stepRunId ty msg t =
     \<lparr>ev_id = i, ev_workflowRunId = ''r'', ev_stepRunId = stepRunId, ev_type = ty,
      ev_message = msg, ev_createdAt = t\<rparr>"

definition exWorld :: "WorkflowStep list \<Rightarrow> WorkflowRun \<Rightarrow> StepRun list \<Rightarrow> Event list \<Rightarrow> world" where
  \<comment> \<open>One workflow ''wf'' with the given steps, one run ''r'' of it, nothing active.\<close>
  "exWorld steps run stepRuns evs =
     \<lparr>db = \<lparr>workflows = [\<lparr>wf_id = ''wf'', wf_name = ''demo'', wf_description = None,
                           wf_createdAt = 0\<rparr>],
            workflow_steps = steps, workflow_runs = [run], step_runs = stepRuns, events = evs\<rparr>,
      activeRuns = {}, nano = exNano, nano_used = 0, clock = exClock, clock_used = 0\<rparr>"

definition exStepRuns :: "RunStatus \<Rightarrow> RunStatus \<Rightarrow> StepRun list" where
  \<comment> \<open>The StepRuns of run ''r'': ''a'' of step ''s1'' and ''b'' of step ''s2''.\<close>
  "exStepRuns sa sb =
     [exStepRun ''a'' ''s1'' sa (if isTerminal sa then Some 105 else None),
      exStepRun ''b'' ''s2'' sb (if isTerminal sb then Some 105 else None)]"

definition exJournal :: "Event list" where
  \<comment> \<open>The journal once startRun's first pass has reached the manual step ''s1''.\<close>
  "exJournal =
     [exEvent ''e1'' None RUN_STARTED ''Run enqueued'' 100,
      exEvent ''e2'' None RUN_STARTED ''Run started'' 102,
      exEvent ''e3'' (Some ''a'') STEP_STARTED
        (''Manual step '' @ [CHR 0x27] @ ''approve'' @ [CHR 0x27] @ '' awaiting completion'') 103]"

definition exAwaiting :: world where
  \<comment> \<open>Run ''r'' is RUNNING and waits at its first manual step.\<close>
  "exAwaiting = exWorld exSteps (exRun RUNNING (Some 101) None) (exStepRuns PENDING PENDING) exJournal"

definition exFailed :: world where
  \<comment> \<open>The same run after completeManualStep(''a'', false).\<close>
  "exFailed = exWorld exSteps (exRun FAILED (Some 101) (Some 106)) (exStepRuns FAILED PENDING)
     (exJournal @ [exEvent ''e4'' (Some ''a'') STEP_FAILED ''Manual step failed'' 105,
                   exEvent ''e5'' None RUN_FAILED ''Run failed by manual step'' 107])"

definition exResumed :: world where
  \<comment> \<open>The same run after the first segment of completeManualStep(''a'', true).\<close>
  "exResumed = exWorld exSteps (exRun RUNNING (Some 101) None) (exStepRuns SUCCEEDED PENDING)
     (exJournal @ [exEvent ''e4'' (Some ''a'') STEP_SUCCEEDED ''Manual step completed'' 105])"

definition exAutoSteps :: "WorkflowStep list" where
  \<comment> \<open>An automated workflow: a delay, then an HTTP call.\<close>
  "exAutoSteps =
     [\<lparr>ws_id = ''s1'', ws_workflowId = ''wf'', ws_name = ''wait'', ws_type = DELAY,
       ws_config = JObj [(''seconds'', JNum 30)], ws_order = 0\<rparr>,
      \<lparr>ws_id = ''s2'', ws_workflowId = ''wf'', ws_name = ''call'', ws_type = HTTP,
       ws_config = JObj [(''url'', JStr ''http://fail'')], ws_order = 1\<rparr>]"

definition exSleeping :: world where
  \<comment> \<open>Run ''r'' of the automated workflow while the pass sleeps in the delay step: StepRun
      ''a'' is RUNNING and its STEP_STARTED is in the journal.\<close>
  "exSleeping = (exWorld exAutoSteps (exRun RUNNING (Some 101) None)
       [(exStepRun ''a'' ''s1'' RUNNING None)\<lparr>sr_startedAt := Some 103\<rparr>,
        exStepRun ''b'' ''s2'' PENDING None]
       [exEvent ''e1'' None RUN_STARTED ''Run enqueued'' 100,
        exEvent ''e2'' None RUN_STARTED ''Run started'' 102,
        exEvent ''e3'' (Some ''a'') STEP_STARTED ''Step started'' 104])
     \<lparr>activeRuns := {''r''}\<rparr>"

definition exSleepingTask :: task where
  \<comment> \<open>The suspended pass of exSleeping: line 97, with the snapshots it loaded.\<close>
  "exSleepingTask =
     StepSleeping ''r'' (exStepRun ''a'' ''s1'' PENDING None) [exAutoSteps ! 1]
       [''s1'' \<mapsto> exStepRun ''a'' ''s1'' PENDING None, ''s2'' \<mapsto> exStepRun ''b'' ''s2'' PENDING None]"

definition exFetching :: world where
  \<comment> \<open>Run ''r'' of the automated workflow while the pass awaits the response of the HTTP
      step: StepRun ''a'' has succeeded, StepRun ''b'' is RUNNING.\<close>
  "exFetching = (exWorld exAutoSteps (exRun RUNNING (Some 101) None)
       [(exStepRun ''a'' ''s1'' SUCCEEDED (Some 105))\<lparr>sr_startedAt := Some 103\<rparr>,
        (exStepRun ''b'' ''s2'' RUNNING None)\<lparr>sr_startedAt := Some 107\<rparr>]
       [exEvent ''e1'' None RUN_STARTED ''Run enqueued'' 100,
        exEvent ''e2'' None RUN_STARTED ''Run started'' 102,
        exEvent ''e3'' (Some ''a'') STEP_STARTED ''Step started'' 104,
        exEvent ''e4'' (Some ''a'') STEP_SUCCEEDED ''Step succeeded'' 106,
        exEvent ''e5'' (Some ''b'') STEP_STARTED ''Step started'' 108])
     \<lparr>activeRuns := {''r''}\<rparr>"

definition exStepRunMap :: stepRunMap where
  \<comment> \<open>The StepRun map the pass of run ''r'' loaded when both StepRuns were PENDING.\<close>
  "exStepRunMap =
     [''s1'' \<mapsto> exStepRun ''a'' ''s1'' PENDING None, ''s2'' \<mapsto> exStepRun ''b'' ''s2'' PENDING None]"

definition exReordered :: UpdateInput where
  \<comment> \<open>The two steps of workflow ''wf'' with their ids, listed with order 1 before order 0.\<close>
  "exReordered =
     \<lparr>ui_id = ''wf'', ui_name = None, ui_description = None,
      ui_steps = [\<lparr>si_id = Some ''s2'', si_name = ''sign'', si_type = MANUAL,
                    si_config = None, si_order = 1\<rparr>,
                  \<lparr>si_id = Some ''s1'', si_name = ''approve'', si_type = MANUAL,
                    si_config = None, si_order = 0\<rparr>]\<rparr>"

definition exAppended :: UpdateInput where
  \<comment> \<open>Step ''s1'' kept with its id, and a new step without one, in ascending order.\<close>
  "exAppended =
     \<lparr>ui_id = ''wf'', ui_name = Some ''demo 2'', ui_description = None,
      ui_steps = [\<lparr>si_id = Some ''s1'', si_name = ''approve'', si_type = MANUAL,
                    si_config = None, si_order = 0\<rparr>,
                  \<lparr>si_id = None, si_name = ''notify'', si_type = HTTP,
                    si_config = Some (JObj [(''url'', JStr ''http://ok'')]), si_order = 1\<rparr>]\<rparr>"

definition exCollide :: world where
  \<comment> \<open>The world exAwaiting with a generator whose second id is ''a'', the id of a StepRun
      that exists.\<close>
  "exCollide = exAwaiting\<lparr>nano := (\<lambda>n. if n = 0 then ''r2'' else ''a'')\<rparr>"

definition exReusing :: world where
  \<comment> \<open>The world exSleeping with a generator that gives the second StepRun it names the
      id ''a'', the id of the StepRun the sleeping pass is executing.\<close>
  "exReusing = exSleeping\<lparr>nano := (\<lambda>n. [''r2'', ''b2'', ''a'', ''e6'', ''e7'', ''e8'', ''e9''] ! n)\<rparr>"

definition exStart :: world where
  \<comment> \<open>An empty store, with the generator and the clock whose readings give the example
      rows their ids and timestamps.\<close>
  "exStart =
     \<lparr>db = \<lparr>workflows = [], workflow_steps = [], workflow_runs = [], step_runs = [], events = []\<rparr>,
      activeRuns = {},
      nano = (\<lambda>n. [''wf'', ''s1'', ''s2'', ''r'', ''a'', ''b'', ''e1'', ''e2'', ''e3'', ''e4'', ''e5''] ! n),
      nano_used = 0,
      clock = (\<lambda>n. [0, 1, 100, 101, 102, 103, 105, 105, 106, 107] ! n),
      clock_used = 0\<rparr>"

definition exCreate :: CreateInput where
  "exCreate =
     \<lparr>ci_name = ''demo'', ci_description = None,
      ci_steps = [\<lparr>si_id = None, si_name = ''approve'', si_type = MANUAL,
                    si_config = None, si_order = 0\<rparr>,
                  \<lparr>si_id = None, si_name = ''sign'', si_type = MANUAL,
                    si_config = None, si_order = 1\<rparr>]\<rparr>"

definition exHistory :: "action list" where
  \<comment> \<open>Create the workflow, start a run, let its pass reach the first manual step.\<close>
  "exHistory = [CallCreateWorkflow exCreate, CallStartRun ''wf'', Resume 1 (Rejected [])]"

section \<open>Basic facts about the Store\<close>

lemma nanoid_proj [simp]:
  "fst (nanoid w) = nano w (nano_used w)"
  "db (snd (nanoid w)) = db w"
  "activeRuns (snd (nanoid w)) = activeRuns w"
  "nano (snd (nanoid w)) = nano w"
  "nano_used (snd (nanoid w)) = Suc (nano_used w)"
  "clock (snd (nanoid w)) = clock w"
  "clock_used (snd (nanoid w)) = clock_used w"
  by (simp_all add: nanoid_def)

lemma now_proj [simp]:
  "fst (now w) = clock w (clock_used w)"
  "db (snd (now w)) = db w"
  "activeRuns (snd (now w)) = activeRuns w"
  "nano (snd (now w)) = nano w"
  "nano_used (snd (now w)) = nano_used w"
  "clock (snd (now w)) = clock w"
  "clock_used (snd (now w)) = Suc (clock_used w)"
  by (simp_all add: now_def)

lemma insertEvent_accepts:
  "insertEvent e d = (if accepts d e then Inr (d\<lparr>events := events d @ [e]\<rparr>)
     else Inl (if ev_id e \<in> set (map ev_id (events d)) then unique_failed ''events.id'' else fk_failed))"
  by (auto simp: insertEvent_def accepts_def split: option.splits)

lemma appendEvent_fst:
  "fst (appendEvent inp w) = None \<longleftrightarrow> accepts (db w) (newEvent inp w)"
  by (simp add: appendEvent_def Let_def case_prod_beta insertEvent_accepts newEvent_def)

lemma appendEvent_db:
  "db (snd (appendEvent inp w)) =
     (if accepts (db w) (newEvent inp w)
      then (db w)\<lparr>events := events (db w) @ [newEvent inp w]\<rparr> else db w)"
  by (simp add: appendEvent_def Let_def case_prod_beta insertEvent_accepts newEvent_def)

lemma appendEvent_proj [simp]:
  "activeRuns (snd (appendEvent inp w)) = activeRuns w"
  "nano (snd (appendEvent inp w)) = nano w"
  "nano_used (snd (appendEvent inp w)) = Suc (nano_used w)"
  "clock (snd (appendEvent inp w)) = clock w"
  "clock_used (snd (appendEvent inp w)) = Suc (clock_used w)"
  "workflows (db (snd (appendEvent inp w))) = workflows (db w)"
  "workflow_steps (db (snd (appendEvent inp w))) = workflow_steps (db w)"
  "workflow_runs (db (snd (appendEvent inp w))) = workflow_runs (db w)"
  "step_runs (db (snd (appendEvent inp w))) = step_runs (db w)"
  by (simp_all add: appendEvent_def Let_def case_prod_beta insertEvent_accepts split: sum.splits)

lemma updateRunStatus_proj [simp]:
  "activeRuns (updateRunStatus i s w) = activeRuns w"
  "nano (updateRunStatus i s w) = nano w"
  "nano_used (updateRunStatus i s w) = nano_used w"
  "clock (updateRunStatus i s w) = clock w"
  "clock_used (updateRunStatus i s w) = (if s = PENDING then clock_used w else Suc (clock_used w))"
  "workflows (db (updateRunStatus i s w)) = workflows (db w)"
  "workflow_steps (db (updateRunStatus i s w)) = workflow_steps (db w)"
  "step_runs (db (updateRunStatus i s w)) = step_runs (db w)"
  "events (db (updateRunStatus i s w)) = events (db w)"
  "map wr_id (workflow_runs (db (updateRunStatus i s w))) = map wr_id (workflow_runs (db w))"
  by (cases s; simp add: updateRunStatus_def read_finished_def read_started_def Let_def case_prod_beta comp_def)+

lemma updateStepRunStatus_proj [simp]:
  "activeRuns (updateStepRunStatus i s w) = activeRuns w"
  "nano (updateStepRunStatus i s w) = nano w"
  "nano_used (updateStepRunStatus i s w) = nano_used w"
  "clock (updateStepRunStatus i s w) = clock w"
  "clock_used (updateStepRunStatus i s w) = (if s = PENDING then clock_used w else Suc (clock_used w))"
  "workflows (db (updateStepRunStatus i s w)) = workflows (db w)"
  "workflow_steps (db (updateStepRunStatus i s w)) = workflow_steps (db w)"
  "workflow_runs (db (updateStepRunStatus i s w)) = workflow_runs (db w)"
  "events (db (updateStepRunStatus i s w)) = events (db w)"
  "map sr_id (step_runs (db (updateStepRunStatus i s w))) = map sr_id (step_runs (db w))"
  by (cases s; simp add: updateStepRunStatus_def read_finished_def read_started_def Let_def case_prod_beta comp_def)+

lemma find_map_upd:
  "find (\<lambda>r. k r = i) xs = Some r \<Longrightarrow> (\<And>x. k (g x) = k x) \<Longrightarrow>
   find (\<lambda>r. k r = i) (map (\<lambda>x. if k x = i then g x else x) xs) = Some (g r)"
  by (induction xs) (auto split: if_splits)

lemma find_map_upd_other:
  "i \<noteq> j \<Longrightarrow> (\<And>x. k (g x) = k x) \<Longrightarrow>
   find (\<lambda>r. k r = i) (map (\<lambda>x. if k x = j then g x else x) xs) = find (\<lambda>r. k r = i) xs"
  by (induction xs) (auto split: if_splits)

lemma find_map_upd_None:
  "find (\<lambda>r. k r = i) xs = None \<Longrightarrow> (\<And>x. k (g x) = k x) \<Longrightarrow>
   find (\<lambda>r. k r = i) (map (\<lambda>x. if k x = j then g x else x) xs) = None"
  by (induction xs) (auto split: if_splits)

lemma updateRunStatus_run:
  assumes "getRun runId (db w) = Some r"
  shows "getRun runId (db (updateRunStatus runId s w)) =
    Some (r\<lparr>wr_status := s,
            wr_startedAt := (if s = RUNNING \<and> wr_startedAt r = None
                             then Some (clock w (clock_used w)) else wr_startedAt r),
            wr_finishedAt := (if (s = SUCCEEDED \<or> s = FAILED) \<and> wr_finishedAt r = None
                              then Some (clock w (clock_used w)) else wr_finishedAt r)\<rparr>)"
proof -
  have upd: "\<And>g. (\<And>x. wr_id (g x) = wr_id x) \<Longrightarrow> find (\<lambda>x. wr_id x = runId)
        (map (\<lambda>x. if wr_id x = runId then g x else x) (workflow_runs (db w))) = Some (g r)"
    using assms unfolding getRun_def by (intro find_map_upd) simp_all
  show ?thesis
    by (cases s)
       (simp_all add: updateRunStatus_def read_finished_def read_started_def now_def
          getRun_def upd, simp_all add: coalesce_def split: option.splits)
qed

lemma updateStepRunStatus_stepRun:
  assumes "getStepRunById i (db w) = Some r"
  shows "getStepRunById i (db (updateStepRunStatus i s w)) =
    Some (r\<lparr>sr_status := s,
            sr_startedAt := (if s = RUNNING \<and> sr_startedAt r = None
                             then Some (clock w (clock_used w)) else sr_startedAt r),
            sr_finishedAt := (if (s = SUCCEEDED \<or> s = FAILED) \<and> sr_finishedAt r = None
                              then Some (clock w (clock_used w)) else sr_finishedAt r)\<rparr>)"
proof -
  have upd: "\<And>g. (\<And>x. sr_id (g x) = sr_id x) \<Longrightarrow> find (\<lambda>x. sr_id x = i)
        (map (\<lambda>x. if sr_id x = i then g x else x) (step_runs (db w))) = Some (g r)"
    using assms unfolding getStepRunById_def by (intro find_map_upd) simp_all
  show ?thesis
    by (cases s)
       (simp_all add: updateStepRunStatus_def read_finished_def read_started_def now_def
          getStepRunById_def upd, simp_all add: coalesce_def split: option.splits)
qed

text \<open>
  C5. For every run and every status \<open>s\<close>, \<open>updateRunStatus\<close> (the Store's setRunStatus)
  writes the status, sets \<open>startedAt\<close> to the current time exactly when \<open>s\<close> is RUNNING and
  \<open>startedAt\<close> was null, sets \<open>finishedAt\<close> to the current time exactly when \<open>s\<close> is
  SUCCEEDED or FAILED and \<open>finishedAt\<close> was null, and leaves a non-null \<open>startedAt\<close> or
  \<open>finishedAt\<close> as it was; \<open>updateStepRunStatus\<close> does the same for a StepRun.
\<close>

theorem status_update_timestamps:
  "(getRun runId (db w) = Some r \<longrightarrow>
      getRun runId (db (updateRunStatus runId s w)) =
        Some (r\<lparr>wr_status := s,
                wr_startedAt := (if s = RUNNING \<and> wr_startedAt r = None
                                 then Some (clock w (clock_used w)) else wr_startedAt r),
                wr_finishedAt := (if (s = SUCCEEDED \<or> s = FAILED) \<and> wr_finishedAt r = None
                                  then Some (clock w (clock_used w)) else wr_finishedAt r)\<rparr>))
   \<and> (getStepRunById i (db w) = Some sr \<longrightarrow>
      getStepRunById i (db (updateStepRunStatus i s' w)) =
        Some (sr\<lparr>sr_status := s',
                 sr_startedAt := (if s' = RUNNING \<and> sr_startedAt sr = None
                                  then Some (clock w (clock_used w)) else sr_startedAt sr),
                 sr_finishedAt := (if (s' = SUCCEEDED \<or> s' = FAILED) \<and> sr_finishedAt sr = None
                                   then Some (clock w (clock_used w)) else sr_finishedAt sr)\<rparr>))"
  using updateRunStatus_run updateStepRunStatus_stepRun by blast

theorem status_update_timestamps_witness:
  "getRun ''r'' (db (exWorld exSteps (exRun PENDING None None) [exStepRun ''a'' ''s1'' RUNNING (Some 7)] []))
     = Some (exRun PENDING None None)
   \<and> getRun ''r'' (db (updateRunStatus ''r'' RUNNING
        (exWorld exSteps (exRun PENDING None None) [exStepRun ''a'' ''s1'' RUNNING (Some 7)] [])))
     = Some (exRun RUNNING (Some 100) None)
   \<and> getStepRunById ''a'' (db (exWorld exSteps (exRun PENDING None None) [exStepRun ''a'' ''s1'' RUNNING (Some 7)] []))
     = Some (exStepRun ''a'' ''s1'' RUNNING (Some 7))
   \<and> getStepRunById ''a'' (db (updateStepRunStatus ''a'' FAILED
        (exWorld exSteps (exRun PENDING None None) [exStepRun ''a'' ''s1'' RUNNING (Some 7)] [])))
     = Some (exStepRun ''a'' ''s1'' FAILED (Some 7))"
  using status_update_timestamps [of "''r''"
      "exWorld exSteps (exRun PENDING None None) [exStepRun ''a'' ''s1'' RUNNING (Some 7)] []"
      "exRun PENDING None None" RUNNING "''a''" "exStepRun ''a'' ''s1'' RUNNING (Some 7)" FAILED]
  by (simp add: exWorld_def exRun_def exStepRun_def exClock_def getRun_def getStepRunById_def)

lemma getStepRunById_mem: "getStepRunById i d = Some sr \<Longrightarrow> i \<in> set (map sr_id (step_runs d))"
  unfolding getStepRunById_def by (induction "step_runs d" arbitrary: d) (auto simp: find_Some_iff)

lemma getRun_mem: "getRun i d = Some r \<Longrightarrow> i \<in> set (map wr_id (workflow_runs d))"
  unfolding getRun_def by (auto simp: find_Some_iff)

lemma getRun_id: "getRun i d = Some r \<Longrightarrow> wr_id r = i"
  unfolding getRun_def by (auto simp: find_Some_iff)

lemma getStepRunById_id: "getStepRunById i d = Some r \<Longrightarrow> sr_id r = i"
  unfolding getStepRunById_def by (auto simp: find_Some_iff)

lemma getWorkflow_id: "getWorkflow i d = Some wk \<Longrightarrow> w_id wk = i"
  unfolding getWorkflow_def by (auto simp: find_Some_iff split: option.splits)

lemma getStepRunById_cong: "step_runs d = step_runs d' \<Longrightarrow> getStepRunById i d = getStepRunById i d'"
  by (simp add: getStepRunById_def)

lemma getRun_cong: "workflow_runs d = workflow_runs d' \<Longrightarrow> getRun i d = getRun i d'"
  by (simp add: getRun_def)

lemma appendEvent_getStepRunById [simp]:
  "getStepRunById i (db (snd (appendEvent inp w))) = getStepRunById i (db w)"
  by (simp add: getStepRunById_def)

lemma appendEvent_getRun [simp]:
  "getRun i (db (snd (appendEvent inp w))) = getRun i (db w)"
  by (simp add: getRun_def)

lemma updateRunStatus_getStepRunById [simp]:
  "getStepRunById i (db (updateRunStatus r s w)) = getStepRunById i (db w)"
  by (simp add: getStepRunById_def)

lemma updateStepRunStatus_getRun [simp]:
  "getRun i (db (updateStepRunStatus r s w)) = getRun i (db w)"
  by (simp add: getRun_def)

lemma appendEvent_events:
  "events (db (snd (appendEvent inp w))) =
     (if accepts (db w) (newEvent inp w) then events (db w) @ [newEvent inp w] else events (db w))"
  by (simp add: appendEvent_db)

lemma execute_proj [simp]:
  "activeRuns (snd (execute r w)) = activeRuns w"
  "step_runs (db (snd (execute r w))) = step_runs (db w)"
  "scheduling (fst (execute r w)) = Some r"
  by (simp_all add: execute_def Let_def case_prod_beta split: option.splits)

lemma enqueueRun_step_runs [simp]:
  "step_runs (db (snd (enqueueRun r w))) = step_runs (db w)"
  by (simp add: enqueueRun_def Let_def case_prod_beta)

lemma enqueueRun_getStepRunById [simp]:
  "getStepRunById i (db (snd (enqueueRun r w))) = getStepRunById i (db w)"
  by (simp add: getStepRunById_def)

lemma completeManualStep_terminal:
  "getStepRunById i (db w) = Some sr \<Longrightarrow> isTerminal (sr_status sr) \<Longrightarrow>
   completeManualStep i success w = (CompleteReturned (Inr (Some sr)), w)"
  by (simp add: completeManualStep_def isTerminal_def)

lemma completeManualStep_first:
  assumes "getStepRunById i (db w) = Some sr" "\<not> isTerminal (sr_status sr)"
  shows "\<exists>sr'. getStepRunById i (db (snd (completeManualStep i success w))) = Some sr'
           \<and> isTerminal (sr_status sr')"
proof -
  let ?s = "if success then SUCCEEDED else FAILED"
  have "snd (completeManualStep i success w) =
        snd (appendEvent \<lparr>in_workflowRunId = sr_workflowRunId sr, in_stepRunId = Some i,
               in_type = (if success then STEP_SUCCEEDED else STEP_FAILED),
               in_message = (if success then ''Manual step completed'' else ''Manual step failed'')\<rparr>
             (updateStepRunStatus i ?s w))"
    using assms by (simp add: completeManualStep_def isTerminal_def Let_def case_prod_beta
        split: option.splits)
  then have "getStepRunById i (db (snd (completeManualStep i success w))) =
        getStepRunById i (db (updateStepRunStatus i ?s w))"
    by (simp only: appendEvent_getStepRunById)
  with updateStepRunStatus_stepRun [OF assms(1), of ?s] show ?thesis
    by (cases success) (simp_all add: isTerminal_def)
qed

lemma runAlone_complete:
  assumes "getStepRunById i (db w1) = Some sr'"
    and "t = CompleteReturned (Inl e) \<or> t = CompletePublishStep sr i success"
  shows "\<exists>r. fst (runAlone 2 t w1) = CompleteReturned r
            \<and> (\<forall>x. r = Inr x \<longrightarrow> x = Some sr')
            \<and> getStepRunById i (db (snd (snd (runAlone 2 t w1)))) = Some sr'"
  using assms
  by (auto simp: numeral_2_eq_2 Let_def case_prod_beta split: option.splits if_splits list.splits prod.splits)


lemma completeManualStep_first_task:
  assumes "getStepRunById i (db w) = Some sr" "\<not> isTerminal (sr_status sr)"
  shows "(\<exists>e. fst (completeManualStep i success w) = CompleteReturned (Inl e))
         \<or> fst (completeManualStep i success w) = CompletePublishStep sr i success"
  using assms
  by (simp add: completeManualStep_def isTerminal_def Let_def case_prod_beta split: option.splits)

text \<open>
  C6. completeManualStep is idempotent on terminal StepRuns: when the StepRun's status is
  already SUCCEEDED or FAILED the call returns that StepRun and leaves the world as it
  was (no event, no status or timestamp change, no task started). In particular, after a
  first call on an existing StepRun has run to its return, the StepRun is terminal, so a
  second call with the same arguments returns the StepRun the first call returned and
  changes nothing.
\<close>

theorem completeManualStep_idempotent:
  "(getStepRunById i (db w) = Some sr \<and> isTerminal (sr_status sr) \<longrightarrow>
      completeManualStep i success w = (CompleteReturned (Inr (Some sr)), w))
   \<and> (getStepRunById i (db w) = Some sr \<longrightarrow>
        (let first = completeManualStep i success w;
             returned = runAlone 2 (fst first) (snd first);
             w1 = snd (snd returned)
         in \<exists>r sr'. fst returned = CompleteReturned r \<and> (\<forall>x. r = Inr x \<longrightarrow> x = Some sr')
              \<and> isTerminal (sr_status sr')
              \<and> completeManualStep i success w1 = (CompleteReturned (Inr (Some sr')), w1)))"
proof (intro conjI impI)
  assume "getStepRunById i (db w) = Some sr \<and> isTerminal (sr_status sr)"
  then show "completeManualStep i success w = (CompleteReturned (Inr (Some sr)), w)"
    by (simp add: completeManualStep_terminal)
next
  assume ex: "getStepRunById i (db w) = Some sr"
  let ?first = "completeManualStep i success w"
  let ?ret = "runAlone 2 (fst ?first) (snd ?first)"
  have "\<exists>r sr'. fst ?ret = CompleteReturned r \<and> (\<forall>x. r = Inr x \<longrightarrow> x = Some sr')
          \<and> isTerminal (sr_status sr')
          \<and> getStepRunById i (db (snd (snd ?ret))) = Some sr'"
  proof (cases "isTerminal (sr_status sr)")
    case True
    with ex have "?first = (CompleteReturned (Inr (Some sr)), w)"
      by (simp add: completeManualStep_terminal)
    with ex True show ?thesis by (simp add: numeral_2_eq_2)
  next
    case False
    from completeManualStep_first [OF ex False, of success] obtain sr' where
      sr': "getStepRunById i (db (snd ?first)) = Some sr'" "isTerminal (sr_status sr')" by blast
    from completeManualStep_first_task [OF ex False, of success] obtain e where
      "fst ?first = CompleteReturned (Inl e) \<or> fst ?first = CompletePublishStep sr i success"
      by blast
    from runAlone_complete [OF sr'(1) this] sr'(2) show ?thesis by blast
  qed
  then obtain r sr' where *: "fst ?ret = CompleteReturned r" "\<forall>x. r = Inr x \<longrightarrow> x = Some sr'"
    "isTerminal (sr_status sr')" "getStepRunById i (db (snd (snd ?ret))) = Some sr'" by blast
  from completeManualStep_terminal [OF *(4) *(3), of success] * 
  show "let first = completeManualStep i success w;
            returned = runAlone 2 (fst first) (snd first);
            w1 = snd (snd returned)
        in \<exists>r sr'. fst returned = CompleteReturned r \<and> (\<forall>x. r = Inr x \<longrightarrow> x = Some sr')
              \<and> isTerminal (sr_status sr')
              \<and> completeManualStep i success w1 = (CompleteReturned (Inr (Some sr')), w1)"
    unfolding Let_def by blast
qed

theorem completeManualStep_idempotent_witness:
  "getStepRunById ''a'' (db (exWorld exSteps (exRun FAILED (Some 5) (Some 9))
       [exStepRun ''a'' ''s1'' FAILED (Some 9), exStepRun ''b'' ''s2'' PENDING None] []))
     = Some (exStepRun ''a'' ''s1'' FAILED (Some 9))
   \<and> isTerminal (sr_status (exStepRun ''a'' ''s1'' FAILED (Some 9)))
   \<and> completeManualStep ''a'' True (exWorld exSteps (exRun FAILED (Some 5) (Some 9))
       [exStepRun ''a'' ''s1'' FAILED (Some 9), exStepRun ''b'' ''s2'' PENDING None] [])
     = (CompleteReturned (Inr (Some (exStepRun ''a'' ''s1'' FAILED (Some 9)))),
        exWorld exSteps (exRun FAILED (Some 5) (Some 9))
          [exStepRun ''a'' ''s1'' FAILED (Some 9), exStepRun ''b'' ''s2'' PENDING None] [])"
proof -
  let ?w = "exWorld exSteps (exRun FAILED (Some 5) (Some 9))
       [exStepRun ''a'' ''s1'' FAILED (Some 9), exStepRun ''b'' ''s2'' PENDING None] []"
  have h: "getStepRunById ''a'' (db ?w) = Some (exStepRun ''a'' ''s1'' FAILED (Some 9))
           \<and> isTerminal (sr_status (exStepRun ''a'' ''s1'' FAILED (Some 9)))"
    by (simp add: exWorld_def exStepRun_def getStepRunById_def isTerminal_def)
  with completeManualStep_idempotent [of "''a''" ?w "exStepRun ''a'' ''s1'' FAILED (Some 9)" True]
  show ?thesis by blast
qed

lemma accepts_newEvent:
  "accepts d (newEvent inp w) \<longleftrightarrow>
     nano w (nano_used w) \<notin> set (map ev_id (events d))
     \<and> in_workflowRunId inp \<in> set (map wr_id (workflow_runs d))
     \<and> (case in_stepRunId inp of None \<Rightarrow> True | Some s \<Rightarrow> s \<in> set (map sr_id (step_runs d)))"
  by (simp add: accepts_def newEvent_def)

lemma execute_absent:
  "getRun runId (db w) = None \<Longrightarrow> execute runId w = (ExecSettled runId None, w)"
  by (simp add: execute_def)

lemma execute_no_workflow:
  "getRun runId (db w) = Some run \<Longrightarrow> getWorkflow (wr_workflowId run) (db w) = None \<Longrightarrow>
   execute runId w = (ExecSettled runId None, w)"
  by (simp add: execute_def)

lemma execute_existing:
  assumes run: "getRun runId (db w) = Some run"
    and wk: "getWorkflow (wr_workflowId run) (db w) = Some wk"
    and fresh: "nano w (nano_used w) \<notin> set (map ev_id (events (db w)))"
  shows "fst (execute runId w) = ExecPublishStart runId (wr_workflowId run)"
    and "getRun runId (db (snd (execute runId w))) =
           Some (run\<lparr>wr_status := RUNNING,
                     wr_startedAt := (if wr_startedAt run = None
                                      then Some (clock w (clock_used w)) else wr_startedAt run)\<rparr>)"
    and "events (db (snd (execute runId w))) = events (db w) @
           [\<lparr>ev_id = nano w (nano_used w), ev_workflowRunId = runId, ev_stepRunId = None,
             ev_type = RUN_STARTED, ev_message = ''Run started'',
             ev_createdAt = clock w (Suc (clock_used w))\<rparr>]"
proof -
  let ?inp = "\<lparr>in_workflowRunId = runId, in_stepRunId = None, in_type = RUN_STARTED,
               in_message = ''Run started''\<rparr>"
  let ?u = "updateRunStatus runId RUNNING w"
  have acc: "accepts (db ?u) (newEvent ?inp ?u)"
    using fresh getRun_mem [OF run] by (simp add: accepts_newEvent)
  have ex: "execute runId w = (case fst (appendEvent ?inp ?u) of
               Some e \<Rightarrow> (ExecSettled runId (Some e), snd (appendEvent ?inp ?u))
             | None \<Rightarrow> (ExecPublishStart runId (w_id wk), snd (appendEvent ?inp ?u)))"
    using run wk by (simp add: execute_def Let_def case_prod_beta)
  have none: "fst (appendEvent ?inp ?u) = None"
    using acc by (simp add: appendEvent_fst)
  show "fst (execute runId w) = ExecPublishStart runId (wr_workflowId run)"
    using ex none getWorkflow_id [OF wk] by simp
  have snd: "snd (execute runId w) = snd (appendEvent ?inp ?u)"
    using ex none by simp
  show "getRun runId (db (snd (execute runId w))) =
           Some (run\<lparr>wr_status := RUNNING,
                     wr_startedAt := (if wr_startedAt run = None
                                      then Some (clock w (clock_used w)) else wr_startedAt run)\<rparr>)"
    using updateRunStatus_run [OF run, of RUNNING] by (simp add: snd)
  show "events (db (snd (execute runId w))) = events (db w) @
           [\<lparr>ev_id = nano w (nano_used w), ev_workflowRunId = runId, ev_stepRunId = None,
             ev_type = RUN_STARTED, ev_message = ''Run started'',
             ev_createdAt = clock w (Suc (clock_used w))\<rparr>]"
    using acc by (simp add: snd appendEvent_events newEvent_def)
qed


lemma enqueueRun_inactive:
  "runId \<notin> activeRuns w \<Longrightarrow>
   enqueueRun runId w =
     ([fst (execute runId (w\<lparr>activeRuns := insert runId (activeRuns w)\<rparr>))],
      snd (execute runId (w\<lparr>activeRuns := insert runId (activeRuns w)\<rparr>)))"
  by (simp add: enqueueRun_def case_prod_beta)

text \<open>
  C1 (as amended). A scheduling pass exits without changing anything only when the run, or
  the run's workflow, is absent. It does not test for a terminal status: a pass that
  enqueueRun starts on a run whose status is SUCCEEDED or FAILED sets the status to
  RUNNING and appends a RUN_STARTED event (given that the generated event id is new);
  what stays as it was is the run's finishedAt, and its startedAt when already set.
\<close>

theorem pass_ignores_terminal_status:
  "(getRun runId (db w) = None \<longrightarrow> execute runId w = (ExecSettled runId None, w))
   \<and> (getRun runId (db w) = Some run \<and> getWorkflow (wr_workflowId run) (db w) = None \<longrightarrow>
        execute runId w = (ExecSettled runId None, w))
   \<and> (getRun runId (db w) = Some run \<and> isTerminal (wr_status run)
        \<and> getWorkflow (wr_workflowId run) (db w) = Some wk
        \<and> nano w (nano_used w) \<notin> set (map ev_id (events (db w)))
        \<and> runId \<notin> activeRuns w \<longrightarrow>
        fst (enqueueRun runId w) = [ExecPublishStart runId (wr_workflowId run)]
        \<and> getRun runId (db (snd (enqueueRun runId w))) =
            Some (run\<lparr>wr_status := RUNNING,
                      wr_startedAt := (if wr_startedAt run = None
                                       then Some (clock w (clock_used w)) else wr_startedAt run)\<rparr>)
        \<and> events (db (snd (enqueueRun runId w))) = events (db w) @
            [\<lparr>ev_id = nano w (nano_used w), ev_workflowRunId = runId, ev_stepRunId = None,
              ev_type = RUN_STARTED, ev_message = ''Run started'',
              ev_createdAt = clock w (Suc (clock_used w))\<rparr>])"
proof (intro conjI impI)
  assume a: "getRun runId (db w) = Some run \<and> isTerminal (wr_status run)
        \<and> getWorkflow (wr_workflowId run) (db w) = Some wk
        \<and> nano w (nano_used w) \<notin> set (map ev_id (events (db w)))
        \<and> runId \<notin> activeRuns w"
  let ?w = "w\<lparr>activeRuns := insert runId (activeRuns w)\<rparr>"
  have run: "getRun runId (db ?w) = Some run"
    and wk: "getWorkflow (wr_workflowId run) (db ?w) = Some wk"
    and fresh: "nano ?w (nano_used ?w) \<notin> set (map ev_id (events (db ?w)))"
    using a by simp_all
  from a have enq: "enqueueRun runId w = ([fst (execute runId ?w)], snd (execute runId ?w))"
    by (simp add: enqueueRun_inactive)
  show "fst (enqueueRun runId w) = [ExecPublishStart runId (wr_workflowId run)]"
    using execute_existing(1) [OF run wk fresh] by (simp add: enq)
  show "getRun runId (db (snd (enqueueRun runId w))) =
            Some (run\<lparr>wr_status := RUNNING,
                      wr_startedAt := (if wr_startedAt run = None
                                       then Some (clock w (clock_used w)) else wr_startedAt run)\<rparr>)"
    using execute_existing(2) [OF run wk fresh] by (simp add: enq)
  show "events (db (snd (enqueueRun runId w))) = events (db w) @
            [\<lparr>ev_id = nano w (nano_used w), ev_workflowRunId = runId, ev_stepRunId = None,
              ev_type = RUN_STARTED, ev_message = ''Run started'',
              ev_createdAt = clock w (Suc (clock_used w))\<rparr>]"
    using execute_existing(3) [OF run wk fresh] by (simp add: enq)
qed (simp_all add: execute_absent execute_no_workflow)

lemmas ex_defs = exWorld_def exRun_def exStepRun_def exStepRuns_def exEvent_def exJournal_def
  exSteps_def exNano_def exClock_def exAwaiting_def exFailed_def exResumed_def isTerminal_def
  exAutoSteps_def exSleeping_def exSleepingTask_def exFetching_def exStepRunMap_def
  exReordered_def exAppended_def exCollide_def exStart_def exCreate_def exHistory_def
  exReusing_def

lemmas store_defs = getRun_def getWorkflow_def getStepRunById_def getStepRunsMap_def
  lookupEntry_def objectPrototypeKeys_def
  listStepRuns_def listWorkflowSteps_def eventsOf_def
  appendEvent_def insertEvent_def nanoid_def now_def unique_failed_def fk_failed_def
  updateRunStatus_def updateStepRunStatus_def read_finished_def read_started_def coalesce_def

theorem terminal_run_restarted_counterexample:
  "map_option wr_status (getRun ''r'' (db exFailed)) = Some FAILED
   \<and> map_option wr_status (getRun ''r'' (db (snd (enqueueRun ''r'' exFailed)))) = Some RUNNING
   \<and> map ev_type (eventsOf ''r'' (db (snd (enqueueRun ''r'' exFailed)))) =
       map ev_type (eventsOf ''r'' (db exFailed)) @ [RUN_STARTED]"
  by (simp add: ex_defs store_defs enqueueRun_def execute_def Let_def)


theorem pass_ignores_terminal_status_witness:
  "getRun ''zz'' (db exFailed) = None
   \<and> execute ''zz'' exFailed = (ExecSettled ''zz'' None, exFailed)
   \<and> getRun ''r'' (db exFailed) = Some (exRun FAILED (Some 101) (Some 106))
   \<and> isTerminal (wr_status (exRun FAILED (Some 101) (Some 106)))
   \<and> getWorkflow ''wf'' (db exFailed) \<noteq> None
   \<and> exNano 0 \<notin> set (map ev_id (events (db exFailed)))
   \<and> ''r'' \<notin> activeRuns exFailed
   \<and> fst (enqueueRun ''r'' exFailed) = [ExecPublishStart ''r'' ''wf'']
   \<and> getRun ''r'' (db (snd (enqueueRun ''r'' exFailed))) = Some (exRun RUNNING (Some 101) (Some 106))"
proof -
  have h0: "getRun ''zz'' (db exFailed) = None"
    by (simp add: ex_defs getRun_def)
  have h1: "getRun ''r'' (db exFailed) = Some (exRun FAILED (Some 101) (Some 106))
      \<and> isTerminal (wr_status (exRun FAILED (Some 101) (Some 106)))
      \<and> getWorkflow (wr_workflowId (exRun FAILED (Some 101) (Some 106))) (db exFailed)
          = Some (the (getWorkflow ''wf'' (db exFailed)))
      \<and> nano exFailed (nano_used exFailed) \<notin> set (map ev_id (events (db exFailed)))
      \<and> ''r'' \<notin> activeRuns exFailed"
    by (simp add: ex_defs getRun_def getWorkflow_def)
  have h2: "getWorkflow ''wf'' (db exFailed) \<noteq> None
      \<and> exNano 0 \<notin> set (map ev_id (events (db exFailed)))"
    by (simp add: ex_defs getWorkflow_def)
  from pass_ignores_terminal_status [of "''zz''" exFailed undefined undefined] h0
  have c0: "execute ''zz'' exFailed = (ExecSettled ''zz'' None, exFailed)" by blast
  from pass_ignores_terminal_status [of "''r''" exFailed "exRun FAILED (Some 101) (Some 106)"
      "the (getWorkflow ''wf'' (db exFailed))"] h1
  have c1: "fst (enqueueRun ''r'' exFailed) =
        [ExecPublishStart ''r'' (wr_workflowId (exRun FAILED (Some 101) (Some 106)))]
      \<and> getRun ''r'' (db (snd (enqueueRun ''r'' exFailed))) =
        Some ((exRun FAILED (Some 101) (Some 106))\<lparr>wr_status := RUNNING,
           wr_startedAt := (if wr_startedAt (exRun FAILED (Some 101) (Some 106)) = None
              then Some (clock exFailed (clock_used exFailed))
              else wr_startedAt (exRun FAILED (Some 101) (Some 106)))\<rparr>)"
    by blast
  from c1 have c2: "fst (enqueueRun ''r'' exFailed) = [ExecPublishStart ''r'' ''wf'']
      \<and> getRun ''r'' (db (snd (enqueueRun ''r'' exFailed))) = Some (exRun RUNNING (Some 101) (Some 106))"
    by (simp add: exRun_def)
  from h0 h1 h2 c0 c2 show ?thesis by blast
qed

text \<open>
  C2 (as amended). A scheduling pass over an existing run whose workflow exists writes the
  status RUNNING and appends a RUN_STARTED event whatever the run's status at the start of
  the pass (given that the generated event id is new). For a run still PENDING this is
  the transition to RUNNING, with startedAt set when it was null. For a run already
  RUNNING with startedAt set, as in a resumption after a manual step completes, the
  write leaves the run as it was, and the RUN_STARTED event is appended all the same.
\<close>

theorem pass_always_appends_run_started:
  "getRun runId (db w) = Some run \<and> getWorkflow (wr_workflowId run) (db w) = Some wk
     \<and> nano w (nano_used w) \<notin> set (map ev_id (events (db w))) \<longrightarrow>
   fst (execute runId w) = ExecPublishStart runId (wr_workflowId run)
   \<and> events (db (snd (execute runId w))) = events (db w) @
        [\<lparr>ev_id = nano w (nano_used w), ev_workflowRunId = runId, ev_stepRunId = None,
          ev_type = RUN_STARTED, ev_message = ''Run started'',
          ev_createdAt = clock w (Suc (clock_used w))\<rparr>]
   \<and> map_option wr_status (getRun runId (db (snd (execute runId w)))) = Some RUNNING
   \<and> (wr_status run = PENDING \<and> wr_startedAt run = None \<longrightarrow>
        getRun runId (db (snd (execute runId w))) =
          Some (run\<lparr>wr_status := RUNNING, wr_startedAt := Some (clock w (clock_used w))\<rparr>))
   \<and> (wr_status run = RUNNING \<and> wr_startedAt run \<noteq> None \<longrightarrow>
        getRun runId (db (snd (execute runId w))) = Some run)"
proof (intro impI)
  assume a: "getRun runId (db w) = Some run \<and> getWorkflow (wr_workflowId run) (db w) = Some wk
     \<and> nano w (nano_used w) \<notin> set (map ev_id (events (db w)))"
  then have run: "getRun runId (db w) = Some run"
    and wk: "getWorkflow (wr_workflowId run) (db w) = Some wk"
    and fresh: "nano w (nano_used w) \<notin> set (map ev_id (events (db w)))" by simp_all
  note ex = execute_existing [OF run wk fresh]
  have same: "wr_status run = RUNNING \<Longrightarrow> wr_startedAt run \<noteq> None \<Longrightarrow>
      run\<lparr>wr_status := RUNNING, wr_startedAt := wr_startedAt run\<rparr> = run"
    by simp
  show "fst (execute runId w) = ExecPublishStart runId (wr_workflowId run)
   \<and> events (db (snd (execute runId w))) = events (db w) @
        [\<lparr>ev_id = nano w (nano_used w), ev_workflowRunId = runId, ev_stepRunId = None,
          ev_type = RUN_STARTED, ev_message = ''Run started'',
          ev_createdAt = clock w (Suc (clock_used w))\<rparr>]
   \<and> map_option wr_status (getRun runId (db (snd (execute runId w)))) = Some RUNNING
   \<and> (wr_status run = PENDING \<and> wr_startedAt run = None \<longrightarrow>
        getRun runId (db (snd (execute runId w))) =
          Some (run\<lparr>wr_status := RUNNING, wr_startedAt := Some (clock w (clock_used w))\<rparr>))
   \<and> (wr_status run = RUNNING \<and> wr_startedAt run \<noteq> None \<longrightarrow>
        getRun runId (db (snd (execute runId w))) = Some run)"
    using ex same by (simp add: ex(2))
qed

theorem resumed_pass_run_started_counterexample:
  "map_option wr_status (getRun ''r'' (db exResumed)) = Some RUNNING
   \<and> map ev_type (eventsOf ''r'' (db exResumed)) =
       [RUN_STARTED, RUN_STARTED, STEP_STARTED, STEP_SUCCEEDED]
   \<and> map ev_type (eventsOf ''r'' (db (snd (execute ''r'' exResumed)))) =
       [RUN_STARTED, RUN_STARTED, STEP_STARTED, STEP_SUCCEEDED, RUN_STARTED]"
  by (simp add: ex_defs store_defs execute_def Let_def)

theorem pass_always_appends_run_started_witness:
  "getRun ''r'' (db exResumed) = Some (exRun RUNNING (Some 101) None)
   \<and> getWorkflow ''wf'' (db exResumed) \<noteq> None
   \<and> exNano 0 \<notin> set (map ev_id (events (db exResumed)))
   \<and> fst (execute ''r'' exResumed) = ExecPublishStart ''r'' ''wf''
   \<and> getRun ''r'' (db (snd (execute ''r'' exResumed))) = Some (exRun RUNNING (Some 101) None)
   \<and> events (db (snd (execute ''r'' exResumed))) = events (db exResumed) @
        [\<lparr>ev_id = ''n'', ev_workflowRunId = ''r'', ev_stepRunId = None,
          ev_type = RUN_STARTED, ev_message = ''Run started'', ev_createdAt = 101\<rparr>]"
proof -
  have h: "getRun ''r'' (db exResumed) = Some (exRun RUNNING (Some 101) None)
      \<and> getWorkflow (wr_workflowId (exRun RUNNING (Some 101) None)) (db exResumed)
          = Some (the (getWorkflow ''wf'' (db exResumed)))
      \<and> nano exResumed (nano_used exResumed) \<notin> set (map ev_id (events (db exResumed)))"
    by (simp add: ex_defs getRun_def getWorkflow_def)
  have h2: "getWorkflow ''wf'' (db exResumed) \<noteq> None
      \<and> exNano 0 \<notin> set (map ev_id (events (db exResumed)))
      \<and> wr_status (exRun RUNNING (Some 101) None) = RUNNING
      \<and> wr_startedAt (exRun RUNNING (Some 101) None) \<noteq> None
      \<and> wr_workflowId (exRun RUNNING (Some 101) None) = ''wf''
      \<and> nano exResumed (nano_used exResumed) = ''n''
      \<and> clock exResumed (Suc (clock_used exResumed)) = 101"
    by (simp add: ex_defs getWorkflow_def)
  from pass_always_appends_run_started [of "''r''" exResumed "exRun RUNNING (Some 101) None"
      "the (getWorkflow ''wf'' (db exResumed))"] h h2
  show ?thesis by simp
qed

text \<open>
  C10. completeManualStep looks neither at the kind of the step nor at whether the step
  awaits completion: for every existing StepRun whose status is PENDING or RUNNING
  (whatever its step is, and whether or not a scheduling pass is inside its handler) the
  call sets the status to SUCCEEDED or FAILED per the flag and appends the corresponding
  STEP_SUCCEEDED or STEP_FAILED event, given that the journal accepts the row (the
  generated id is new and the StepRun's run exists); resumed after its publish with
  success, it calls enqueueRun for the StepRun's run.
\<close>

theorem completeManualStep_any_open_step:
  "getStepRunById i (db w) = Some sr \<and> (sr_status sr = PENDING \<or> sr_status sr = RUNNING)
     \<and> nano w (nano_used w) \<notin> set (map ev_id (events (db w)))
     \<and> sr_workflowRunId sr \<in> set (map wr_id (workflow_runs (db w))) \<longrightarrow>
   fst (completeManualStep i success w) = CompletePublishStep sr i success
   \<and> getStepRunById i (db (snd (completeManualStep i success w))) =
       Some (sr\<lparr>sr_status := (if success then SUCCEEDED else FAILED),
                sr_finishedAt := (if sr_finishedAt sr = None
                                  then Some (clock w (clock_used w)) else sr_finishedAt sr)\<rparr>)
   \<and> events (db (snd (completeManualStep i success w))) = events (db w) @
       [\<lparr>ev_id = nano w (nano_used w), ev_workflowRunId = sr_workflowRunId sr,
         ev_stepRunId = Some i,
         ev_type = (if success then STEP_SUCCEEDED else STEP_FAILED),
         ev_message = (if success then ''Manual step completed'' else ''Manual step failed''),
         ev_createdAt = clock w (Suc (clock_used w))\<rparr>]
   \<and> (\<forall>fr w'. resume (CompletePublishStep sr i True) fr w' =
         (CompleteEnqueued i # fst (enqueueRun (sr_workflowRunId sr) w'),
          snd (enqueueRun (sr_workflowRunId sr) w')))"
proof (intro impI)
  assume a: "getStepRunById i (db w) = Some sr \<and> (sr_status sr = PENDING \<or> sr_status sr = RUNNING)
     \<and> nano w (nano_used w) \<notin> set (map ev_id (events (db w)))
     \<and> sr_workflowRunId sr \<in> set (map wr_id (workflow_runs (db w)))"
  then have sr: "getStepRunById i (db w) = Some sr"
    and st: "sr_status sr \<noteq> SUCCEEDED" "sr_status sr \<noteq> FAILED" by auto
  let ?s = "if success then SUCCEEDED else FAILED"
  let ?inp = "\<lparr>in_workflowRunId = sr_workflowRunId sr, in_stepRunId = Some i,
               in_type = (if success then STEP_SUCCEEDED else STEP_FAILED),
               in_message = (if success then ''Manual step completed'' else ''Manual step failed'')\<rparr>"
  let ?u = "updateStepRunStatus i ?s w"
  have acc: "accepts (db ?u) (newEvent ?inp ?u)"
    using a getStepRunById_mem [OF sr]
      updateStepRunStatus_proj(10) [of i ?s w]
    by (simp add: accepts_newEvent del: updateStepRunStatus_proj(10))
  have cms: "completeManualStep i success w = (case fst (appendEvent ?inp ?u) of
               Some e \<Rightarrow> (CompleteReturned (Inl e), snd (appendEvent ?inp ?u))
             | None \<Rightarrow> (CompletePublishStep sr i success, snd (appendEvent ?inp ?u)))"
    using sr st by (simp add: completeManualStep_def Let_def case_prod_beta)
  have none: "fst (appendEvent ?inp ?u) = None"
    using acc by (simp add: appendEvent_fst)
  have snd: "snd (completeManualStep i success w) = snd (appendEvent ?inp ?u)"
    using cms none by simp
  have 1: "fst (completeManualStep i success w) = CompletePublishStep sr i success"
    using cms none by simp
  have 2: "getStepRunById i (db (snd (completeManualStep i success w))) =
       Some (sr\<lparr>sr_status := ?s,
                sr_finishedAt := (if sr_finishedAt sr = None
                                  then Some (clock w (clock_used w)) else sr_finishedAt sr)\<rparr>)"
    using updateStepRunStatus_stepRun [OF sr, of ?s] arg_cong [OF snd, of "\<lambda>x. getStepRunById i (db x)"]
    by (cases success) simp_all
  have 3: "events (db (snd (completeManualStep i success w))) = events (db w) @
       [\<lparr>ev_id = nano w (nano_used w), ev_workflowRunId = sr_workflowRunId sr,
         ev_stepRunId = Some i,
         ev_type = (if success then STEP_SUCCEEDED else STEP_FAILED),
         ev_message = (if success then ''Manual step completed'' else ''Manual step failed''),
         ev_createdAt = clock w (Suc (clock_used w))\<rparr>]"
    using acc arg_cong [OF snd, of "\<lambda>x. events (db x)"]
    by (cases success) (simp_all add: appendEvent_events newEvent_def)
  have 4: "\<forall>fr w'. resume (CompletePublishStep sr i True) fr w' =
         (CompleteEnqueued i # fst (enqueueRun (sr_workflowRunId sr) w'),
          snd (enqueueRun (sr_workflowRunId sr) w'))"
    by (simp add: case_prod_beta)
  from 1 2 3 4 show "fst (completeManualStep i success w) = CompletePublishStep sr i success
   \<and> getStepRunById i (db (snd (completeManualStep i success w))) =
       Some (sr\<lparr>sr_status := (if success then SUCCEEDED else FAILED),
                sr_finishedAt := (if sr_finishedAt sr = None
                                  then Some (clock w (clock_used w)) else sr_finishedAt sr)\<rparr>)
   \<and> events (db (snd (completeManualStep i success w))) = events (db w) @
       [\<lparr>ev_id = nano w (nano_used w), ev_workflowRunId = sr_workflowRunId sr,
         ev_stepRunId = Some i,
         ev_type = (if success then STEP_SUCCEEDED else STEP_FAILED),
         ev_message = (if success then ''Manual step completed'' else ''Manual step failed''),
         ev_createdAt = clock w (Suc (clock_used w))\<rparr>]
   \<and> (\<forall>fr w'. resume (CompletePublishStep sr i True) fr w' =
         (CompleteEnqueued i # fst (enqueueRun (sr_workflowRunId sr) w'),
          snd (enqueueRun (sr_workflowRunId sr) w')))"
    by blast
qed


theorem completeManualStep_any_open_step_witness:
  "getStepRunById ''a'' (db exSleeping) = Some ((exStepRun ''a'' ''s1'' RUNNING None)\<lparr>sr_startedAt := Some 103\<rparr>)
   \<and> map ws_type (filter (\<lambda>s. ws_id s = ''s1'') (workflow_steps (db exSleeping))) = [DELAY]
   \<and> exNano 0 \<notin> set (map ev_id (events (db exSleeping)))
   \<and> ''r'' \<in> set (map wr_id (workflow_runs (db exSleeping)))
   \<and> fst (completeManualStep ''a'' True exSleeping) =
       CompletePublishStep ((exStepRun ''a'' ''s1'' RUNNING None)\<lparr>sr_startedAt := Some 103\<rparr>) ''a'' True
   \<and> getStepRunById ''a'' (db (snd (completeManualStep ''a'' True exSleeping))) =
       Some ((exStepRun ''a'' ''s1'' SUCCEEDED (Some 100))\<lparr>sr_startedAt := Some 103\<rparr>)
   \<and> map ev_type (events (db (snd (completeManualStep ''a'' True exSleeping)))) =
       [RUN_STARTED, RUN_STARTED, STEP_STARTED, STEP_SUCCEEDED]"
proof -
  let ?sr = "(exStepRun ''a'' ''s1'' RUNNING None)\<lparr>sr_startedAt := Some 103\<rparr>"
  have h: "getStepRunById ''a'' (db exSleeping) = Some ?sr
      \<and> (sr_status ?sr = PENDING \<or> sr_status ?sr = RUNNING)
      \<and> nano exSleeping (nano_used exSleeping) \<notin> set (map ev_id (events (db exSleeping)))
      \<and> sr_workflowRunId ?sr \<in> set (map wr_id (workflow_runs (db exSleeping)))"
    by (simp add: ex_defs getStepRunById_def)
  have h2: "map ws_type (filter (\<lambda>s. ws_id s = ''s1'') (workflow_steps (db exSleeping))) = [DELAY]
      \<and> exNano 0 \<notin> set (map ev_id (events (db exSleeping)))
      \<and> ''r'' \<in> set (map wr_id (workflow_runs (db exSleeping)))
      \<and> sr_finishedAt ?sr = None \<and> clock exSleeping (clock_used exSleeping) = 100
      \<and> map ev_type (events (db exSleeping)) = [RUN_STARTED, RUN_STARTED, STEP_STARTED]"
    by (simp add: ex_defs)
  from completeManualStep_any_open_step [of "''a''" exSleeping ?sr True] h
  have c: "fst (completeManualStep ''a'' True exSleeping) = CompletePublishStep ?sr ''a'' True
     \<and> getStepRunById ''a'' (db (snd (completeManualStep ''a'' True exSleeping))) =
       Some (?sr\<lparr>sr_status := SUCCEEDED,
                sr_finishedAt := (if sr_finishedAt ?sr = None
                   then Some (clock exSleeping (clock_used exSleeping)) else sr_finishedAt ?sr)\<rparr>)
     \<and> events (db (snd (completeManualStep ''a'' True exSleeping))) = events (db exSleeping) @
       [\<lparr>ev_id = nano exSleeping (nano_used exSleeping), ev_workflowRunId = sr_workflowRunId ?sr,
         ev_stepRunId = Some ''a'', ev_type = STEP_SUCCEEDED,
         ev_message = ''Manual step completed'',
         ev_createdAt = clock exSleeping (Suc (clock_used exSleeping))\<rparr>]"
    by simp
  from c h2 have "getStepRunById ''a'' (db (snd (completeManualStep ''a'' True exSleeping))) =
       Some ((exStepRun ''a'' ''s1'' SUCCEEDED (Some 100))\<lparr>sr_startedAt := Some 103\<rparr>)
     \<and> map ev_type (events (db (snd (completeManualStep ''a'' True exSleeping)))) =
       [RUN_STARTED, RUN_STARTED, STEP_STARTED, STEP_SUCCEEDED]"
    by (simp add: exStepRun_def)
  with c h h2 show ?thesis by blast
qed

lemma string_of_nat_500: "string_of_nat 500 = ''500''"
  by (simp add: string_of_nat.simps)

lemma updateStepRunStatus_status:
  "getStepRunById i (db w) \<noteq> None \<Longrightarrow>
   map_option sr_status (getStepRunById i (db (updateStepRunStatus i s w))) = Some s"
  using updateStepRunStatus_stepRun [of i w _ s] by auto

lemma updateRunStatus_status:
  "getRun i (db w) \<noteq> None \<Longrightarrow>
   map_option wr_status (getRun i (db (updateRunStatus i s w))) = Some s"
  using updateRunStatus_run [of i w _ s] by auto

lemma getRun_mem_iff: "getRun i d \<noteq> None \<longleftrightarrow> i \<in> set (map wr_id (workflow_runs d))"
  unfolding getRun_def by (auto simp: find_None_iff)

lemma getStepRunById_mem_iff: "getStepRunById i d \<noteq> None \<longleftrightarrow> i \<in> set (map sr_id (step_runs d))"
  unfolding getStepRunById_def by (auto simp: find_None_iff)

lemma stepFailed_recorded:
  assumes "journalAccepts runId (sr_id stepRun) w"
  shows "fst (stepFailed runId stepRun err w) = None"
    and "failureRecorded runId (sr_id stepRun) (err_message err) w (snd (stepFailed runId stepRun err w))"
proof -
  let ?i = "sr_id stepRun"
  let ?u = "updateStepRunStatus ?i FAILED w"
  let ?inp1 = "\<lparr>in_workflowRunId = runId, in_stepRunId = Some ?i,
                 in_type = STEP_FAILED, in_message = ''Step failed: '' @ err_message err\<rparr>"
  let ?w1 = "snd (appendEvent ?inp1 ?u)"
  let ?u2 = "updateRunStatus runId FAILED ?w1"
  let ?inp2 = "\<lparr>in_workflowRunId = runId, in_stepRunId = None,
                 in_type = RUN_FAILED, in_message = ''Run failed''\<rparr>"
  from assms have run: "getRun runId (db w) \<noteq> None" and sr: "getStepRunById ?i (db w) \<noteq> None"
    and f1: "nano w (nano_used w) \<notin> set (map ev_id (events (db w)))"
    and f2: "nano w (Suc (nano_used w)) \<notin> set (map ev_id (events (db w)))"
    and f3: "nano w (Suc (nano_used w)) \<noteq> nano w (nano_used w)"
    by (simp_all add: journalAccepts_def)
  from run have runm: "runId \<in> set (map wr_id (workflow_runs (db w)))"
    by (simp only: getRun_mem_iff)
  from sr have srm: "?i \<in> set (map sr_id (step_runs (db w)))"
    by (simp only: getStepRunById_mem_iff)
  have srm': "?i \<in> set (map sr_id (step_runs (db ?u)))"
    using srm by (simp only: updateStepRunStatus_proj(10))
  have acc1: "accepts (db ?u) (newEvent ?inp1 ?u)"
    using f1 runm srm' by (simp add: accepts_newEvent del: updateStepRunStatus_proj(10))
  then have r1: "fst (appendEvent ?inp1 ?u) = None" by (simp add: appendEvent_fst)
  have ev1: "events (db ?w1) = events (db w) @ [newEvent ?inp1 ?u]"
    using acc1 by (simp add: appendEvent_events)
  have runm2: "runId \<in> set (map wr_id (workflow_runs (db ?u2)))"
    using runm by (simp only: updateRunStatus_proj(10) appendEvent_proj updateStepRunStatus_proj)
  have acc2: "accepts (db ?u2) (newEvent ?inp2 ?u2)"
    using f2 f3 runm2 ev1 by (simp add: accepts_def newEvent_def del: updateRunStatus_proj(10))
  then have r2: "fst (appendEvent ?inp2 ?u2) = None" by (simp add: appendEvent_fst)
  have sf: "stepFailed runId stepRun err w = appendEvent ?inp2 ?u2"
    using r1 by (simp add: stepFailed_def Let_def case_prod_beta)
  show "fst (stepFailed runId stepRun err w) = None" using sf r2 by simp
  have st: "map_option sr_status (getStepRunById ?i (db (snd (appendEvent ?inp2 ?u2)))) = Some FAILED"
    using updateStepRunStatus_status [OF sr, of FAILED] by simp
  have rs: "map_option wr_status (getRun runId (db (snd (appendEvent ?inp2 ?u2)))) = Some FAILED"
    using run by (simp add: updateRunStatus_status)
  have ev2: "events (db (snd (appendEvent ?inp2 ?u2))) = events (db w) @ [newEvent ?inp1 ?u, newEvent ?inp2 ?u2]"
    using acc2 ev1 by (simp add: appendEvent_events)
  show "failureRecorded runId ?i (err_message err) w (snd (stepFailed runId stepRun err w))"
    using sf st rs ev2 by (simp add: failureRecorded_def newEvent_def)
qed

lemma finishStep_thrown:
  assumes "journalAccepts runId (sr_id stepRun) w"
  shows "fst (finishStep runId stepRun rest m (Some err) w) = StepPublishDone runId rest m"
    and "failureRecorded runId (sr_id stepRun) (err_message err) w
           (snd (finishStep runId stepRun rest m (Some err) w))"
  using stepFailed_recorded [OF assms, of err]
  by (simp_all add: finishStep_def Let_def case_prod_beta split: option.splits prod.splits)




lemma finishStep_proj [simp]:
  "activeRuns (snd (finishStep r sr rest m th w)) = activeRuns w"
  "scheduling (fst (finishStep r sr rest m th w)) = Some r"
  by (simp_all add: finishStep_def stepSucceeded_def stepFailed_def Let_def case_prod_beta
      split: option.splits prod.splits)

lemma runNonManualStep_proj [simp]:
  "activeRuns (snd (runNonManualStep r sr ty c rest m w)) = activeRuns w"
  "scheduling (fst (runNonManualStep r sr ty c rest m w)) = Some r"
  by (simp_all add: runNonManualStep_def Let_def case_prod_beta split: option.splits)

lemma loop_proj [simp]:
  "activeRuns (snd (loop r steps m w)) = activeRuns w"
  "scheduling (fst (loop r steps m w)) = Some r"
  by (induction r steps m w rule: loop.induct;
      simp add: Let_def case_prod_beta split: option.splits entry.splits)+

lemma resume_scheduling:
  assumes "scheduling t = Some r" "\<forall>e. t \<noteq> ExecSettled r e"
  shows "\<exists>t'. fst (resume t fr w) = [t'] \<and> scheduling t' = Some r
           \<and> activeRuns (snd (resume t fr w)) = activeRuns w"
  using assms
  by (cases t) (simp_all add: Let_def case_prod_beta split: fetch_result.splits)

lemma resume_settled:
  "resume (ExecSettled r e) fr w = ([], w\<lparr>activeRuns := activeRuns w - {r}\<rparr>)"
  by simp

lemma enqueueRun_active: "r \<in> activeRuns w \<Longrightarrow> enqueueRun r w = ([], w)"
  by (simp add: enqueueRun_def)

lemma enqueueRun_started:
  "r \<notin> activeRuns w \<Longrightarrow>
   \<exists>t. fst (enqueueRun r w) = [t] \<and> scheduling t = Some r
       \<and> activeRuns (snd (enqueueRun r w)) = insert r (activeRuns w)"
  by (simp add: enqueueRun_def case_prod_beta)


lemma schedulers_simps [simp]:
  "schedulers [] = []"
  "schedulers (t # ts) = (case scheduling t of None \<Rightarrow> schedulers ts | Some r \<Rightarrow> r # schedulers ts)"
  "schedulers (xs @ ys) = schedulers xs @ schedulers ys"
  by (simp_all add: schedulers_def map_filter_def split: option.splits)

lemma insertNewSteps_activeRuns [simp]:
  "activeRuns (snd (insertNewSteps i ss w)) = activeRuns w"
  by (induction i ss w rule: insertNewSteps.induct)
     (simp_all add: Let_def case_prod_beta nanoid_def split: sum.splits)

lemma insertGivenSteps_activeRuns [simp]:
  "activeRuns (snd (insertGivenSteps i ss w)) = activeRuns w"
  by (induction i ss w rule: insertGivenSteps.induct)
     (simp_all add: Let_def case_prod_beta nanoid_def split: sum.splits option.splits)

lemma insertStepRuns_activeRuns [simp]:
  "activeRuns (snd (insertStepRuns i ss w)) = activeRuns w"
  by (induction i ss w rule: insertStepRuns.induct)
     (simp_all add: Let_def case_prod_beta nanoid_def split: sum.splits)

lemma createWorkflow_activeRuns [simp]:
  "activeRuns (snd (createWorkflow inp w)) = activeRuns w"
  by (simp add: createWorkflow_def Let_def case_prod_beta split: sum.splits prod.splits option.splits)


lemma updateWorkflow_activeRuns [simp]:
  "activeRuns (snd (updateWorkflow inp w)) = activeRuns w"
  by (simp add: updateWorkflow_def Let_def case_prod_beta split: option.splits)

lemma createRun_activeRuns [simp]:
  "activeRuns (snd (createRun i w)) = activeRuns w"
  by (simp add: createRun_def Let_def case_prod_beta split: sum.splits option.splits)

lemma completeManualStep_proj [simp]:
  "activeRuns (snd (completeManualStep i s w)) = activeRuns w"
  "scheduling (fst (completeManualStep i s w)) = None"
  by (simp_all add: completeManualStep_def Let_def case_prod_beta split: option.splits)

lemma enqueueRun_spawns:
  "(schedulers (fst (enqueueRun r w)) = [] \<and> activeRuns (snd (enqueueRun r w)) = activeRuns w)
   \<or> (\<exists>r'. schedulers (fst (enqueueRun r w)) = [r'] \<and> r' \<notin> activeRuns w
          \<and> activeRuns (snd (enqueueRun r w)) = insert r' (activeRuns w))"
  by (simp add: enqueueRun_def case_prod_beta)

lemma startRun_spawns:
  "(schedulers (fst (startRun i w)) = [] \<and> activeRuns (snd (startRun i w)) = activeRuns w)
   \<or> (\<exists>r'. schedulers (fst (startRun i w)) = [r'] \<and> r' \<notin> activeRuns w
          \<and> activeRuns (snd (startRun i w)) = insert r' (activeRuns w))"
proof (cases "createRun i w")
  case (Pair res w1)
  then have a1: "activeRuns w1 = activeRuns w"
    using createRun_activeRuns [of i w] by simp
  show ?thesis
  proof (cases res)
    case (Inl e)
    with Pair a1 show ?thesis by (simp add: startRun_def)
  next
    case (Inr ro)
    show ?thesis
    proof (cases ro)
      case None
      with Pair Inr a1 show ?thesis by (simp add: startRun_def)
    next
      case (Some run)
      let ?inp = "\<lparr>in_workflowRunId = wr_id run, in_stepRunId = None,
                  in_type = RUN_STARTED, in_message = ''Run enqueued''\<rparr>"
      obtain r2 w2 where ap: "appendEvent ?inp w1 = (r2, w2)" by (cases "appendEvent ?inp w1")
      then have a2: "activeRuns w2 = activeRuns w"
        using appendEvent_proj(1) [of ?inp w1] a1 by simp
      show ?thesis
      proof (cases r2)
        case (Some e)
        with Pair Inr \<open>ro = Some run\<close> ap a2 show ?thesis by (simp add: startRun_def)
      next
        case None
        with Pair Inr \<open>ro = Some run\<close> ap
        have "startRun i w = (StartRunEnqueued run # fst (enqueueRun (wr_id run) w2),
                              snd (enqueueRun (wr_id run) w2))"
          by (simp add: startRun_def case_prod_beta)
        with enqueueRun_spawns [of "wr_id run" w2] a2 show ?thesis by simp
      qed
    qed
  qed
qed

lemma resume_call_spawns:
  assumes "scheduling t = None"
  shows "(schedulers (fst (resume t fr w)) = [] \<and> activeRuns (snd (resume t fr w)) = activeRuns w)
   \<or> (\<exists>r'. schedulers (fst (resume t fr w)) = [r'] \<and> r' \<notin> activeRuns w
          \<and> activeRuns (snd (resume t fr w)) = insert r' (activeRuns w))"
proof (cases t)
  case (CompletePublishStep sr i success)
  show ?thesis
  proof (cases success)
    case True
    with CompletePublishStep enqueueRun_spawns [of "sr_workflowRunId sr" w]
    show ?thesis by (simp add: case_prod_beta)
  next
    case False
    with CompletePublishStep show ?thesis
      by (simp add: Let_def case_prod_beta split: option.splits)
  qed
qed (use assms in simp_all)


lemma spawn_keeps_distinct:
  assumes "distinct (A @ B)" "set (A @ B) = S"
    and "(N = [] \<and> S' = S) \<or> (\<exists>r. N = [r] \<and> r \<notin> S \<and> S' = insert r S)"
  shows "distinct (A @ N @ B) \<and> set (A @ N @ B) = S'"
  using assms by auto

lemma act_keeps_one_scheduler:
  assumes inv: "oneSchedulerPerRun s"
  shows "oneSchedulerPerRun (act a s)"
proof -
  obtain w ts where s: "s = (w, ts)" by (cases s)
  from inv s have d: "distinct (schedulers ts)" and e: "set (schedulers ts) = activeRuns w"
    by (simp_all add: oneSchedulerPerRun_def)
  show ?thesis
  proof (cases a)
    case (Resume k fr)
    show ?thesis
    proof (cases "k < length ts")
      case False
      with Resume s inv show ?thesis by simp
    next
      case True
      let ?t = "ts ! k"
      let ?A = "take k ts" and ?B = "drop (Suc k) ts"
      have split: "ts = ?A @ ?t # ?B" using True by (rule id_take_nth_drop)
      have res: "act a s = (snd (resume ?t fr w), ?A @ fst (resume ?t fr w) @ ?B)"
        using Resume s True by (simp add: case_prod_beta)
      have sch: "schedulers ts = schedulers ?A @ schedulers [?t] @ schedulers ?B"
      proof -
        have "schedulers ts = schedulers (?A @ [?t] @ ?B)" using split by simp
        then show ?thesis by (simp only: schedulers_simps(3))
      qed
      show ?thesis
      proof (cases "scheduling ?t")
        case None
        then have "schedulers ts = schedulers ?A @ schedulers ?B"
          using sch by simp
        with d e have "distinct (schedulers ?A @ schedulers ?B)"
          "set (schedulers ?A @ schedulers ?B) = activeRuns w" by simp_all
        from spawn_keeps_distinct [OF this resume_call_spawns [OF None, of fr w]]
        show ?thesis by (simp add: res oneSchedulerPerRun_def)
      next
        case (Some r)
        then have sch': "schedulers ts = schedulers ?A @ r # schedulers ?B"
          using sch by simp
        show ?thesis
        proof (cases "\<exists>err. ?t = ExecSettled r err")
          case True
          then obtain err where t: "?t = ExecSettled r err" by blast
          have "resume ?t fr w = ([], w\<lparr>activeRuns := activeRuns w - {r}\<rparr>)"
            by (simp add: t)
          with d e sch' show ?thesis
            by (auto simp add: res oneSchedulerPerRun_def)
        next
          case False
          then have "\<forall>err. ?t \<noteq> ExecSettled r err" by blast
          from resume_scheduling [OF Some this, of fr w] obtain t' where
            t': "fst (resume ?t fr w) = [t']" "scheduling t' = Some r"
              "activeRuns (snd (resume ?t fr w)) = activeRuns w" by blast
          with d e sch' show ?thesis
            by (simp add: res oneSchedulerPerRun_def)
        qed
      qed
    qed
  next
    case (CallEnqueueRun r)
    have res: "act a s = (snd (enqueueRun r w), ts @ fst (enqueueRun r w))"
      using CallEnqueueRun s by (simp add: case_prod_beta)
    from d e have "distinct (schedulers ts @ [])" "set (schedulers ts @ []) = activeRuns w"
      by simp_all
    from spawn_keeps_distinct [OF this enqueueRun_spawns [of r w]]
    show ?thesis by (simp add: res oneSchedulerPerRun_def)
  next
    case (CallCompleteManualStep i success)
    have res: "act a s = (snd (completeManualStep i success w), ts @ [fst (completeManualStep i success w)])"
      using CallCompleteManualStep s by (simp add: case_prod_beta)
    with d e show ?thesis by (simp add: oneSchedulerPerRun_def)
  next
    case (CallStartRun i)
    have res: "act a s = (snd (startRun i w), ts @ fst (startRun i w))"
      using CallStartRun s by (simp add: case_prod_beta)
    from d e have "distinct (schedulers ts @ [])" "set (schedulers ts @ []) = activeRuns w"
      by simp_all
    from spawn_keeps_distinct [OF this startRun_spawns [of i w]]
    show ?thesis by (simp add: res oneSchedulerPerRun_def)
  next
    case (CallCreateWorkflow inp)
    with s d e show ?thesis by (simp add: oneSchedulerPerRun_def)
  next
    case (CallUpdateWorkflow inp)
    with s d e show ?thesis by (simp add: oneSchedulerPerRun_def)
  qed
qed

lemma runActions_keeps_one_scheduler:
  "oneSchedulerPerRun s \<Longrightarrow> oneSchedulerPerRun (runActions as s)"
  unfolding runActions_def
  by (induction as arbitrary: s) (simp_all add: act_keeps_one_scheduler)


lemma distinct_at_most_once: "distinct xs \<Longrightarrow> length (filter (\<lambda>x. x = r) xs) \<le> Suc 0"
  by (induction xs) (auto simp: filter_empty_conv)

text \<open>
  C7. enqueueRun is idempotent. If runId is in the active set the call returns at once:
  it starts no task and changes nothing. Otherwise runId is added to the active set and
  exactly one scheduling pass for runId begins: the task the call starts is
  execute(runId), run up to its first await in the world with runId active. For an
  existing run of an existing workflow that pass has written RUNNING and appended
  RUN_STARTED and is suspended at line 37; for a missing run it has returned at once
  and runId stays active until the finally callback runs. While the pass is suspended at
  any of its awaits it stays the one pass of runId and the active set is not touched;
  once it has returned or thrown, the finally callback removes runId from the active
  set. So in every state the process reaches from one with an empty active set and no
  tasks, by any calls and any resumptions in any order, the runs with a scheduling pass
  are exactly the active set and no run has more than one pass.
\<close>

theorem enqueueRun_idempotent:
  "(runId \<in> activeRuns w \<longrightarrow> enqueueRun runId w = ([], w))
   \<and> (runId \<notin> activeRuns w \<longrightarrow>
        enqueueRun runId w =
          ([fst (execute runId (w\<lparr>activeRuns := insert runId (activeRuns w)\<rparr>))],
           snd (execute runId (w\<lparr>activeRuns := insert runId (activeRuns w)\<rparr>)))
        \<and> (\<exists>t. fst (enqueueRun runId w) = [t] \<and> scheduling t = Some runId
           \<and> activeRuns (snd (enqueueRun runId w)) = insert runId (activeRuns w)))
   \<and> (scheduling t = Some runId \<and> (\<forall>e. t \<noteq> ExecSettled runId e) \<longrightarrow>
        (\<exists>t'. fst (resume t fr w) = [t'] \<and> scheduling t' = Some runId
           \<and> activeRuns (snd (resume t fr w)) = activeRuns w))
   \<and> resume (ExecSettled runId e) fr w = ([], w\<lparr>activeRuns := activeRuns w - {runId}\<rparr>)
   \<and> (oneSchedulerPerRun s \<longrightarrow>
        oneSchedulerPerRun (runActions as s)
        \<and> length (filter (\<lambda>x. x = runId) (schedulers (snd (runActions as s)))) \<le> 1)
   \<and> (activeRuns w = {} \<longrightarrow> oneSchedulerPerRun (runActions as (w, [])))
   \<and> (runId \<notin> activeRuns w \<and> getRun runId (db w) = Some run
        \<and> getWorkflow (wr_workflowId run) (db w) = Some wk
        \<and> nano w (nano_used w) \<notin> set (map ev_id (events (db w))) \<longrightarrow>
        fst (enqueueRun runId w) = [ExecPublishStart runId (wr_workflowId run)]
        \<and> map_option wr_status (getRun runId (db (snd (enqueueRun runId w)))) = Some RUNNING
        \<and> events (db (snd (enqueueRun runId w))) = events (db w) @
            [\<lparr>ev_id = nano w (nano_used w), ev_workflowRunId = runId, ev_stepRunId = None,
              ev_type = RUN_STARTED, ev_message = ''Run started'',
              ev_createdAt = clock w (Suc (clock_used w))\<rparr>])
   \<and> (runId \<notin> activeRuns w \<and> getRun runId (db w) = None \<longrightarrow>
        enqueueRun runId w =
          ([ExecSettled runId None], w\<lparr>activeRuns := insert runId (activeRuns w)\<rparr>))"
proof (intro conjI impI)
  assume "runId \<in> activeRuns w"
  then show "enqueueRun runId w = ([], w)" by (rule enqueueRun_active)
next
  assume "runId \<notin> activeRuns w"
  then show "enqueueRun runId w =
          ([fst (execute runId (w\<lparr>activeRuns := insert runId (activeRuns w)\<rparr>))],
           snd (execute runId (w\<lparr>activeRuns := insert runId (activeRuns w)\<rparr>)))"
    by (rule enqueueRun_inactive)
next
  assume "runId \<notin> activeRuns w"
  then show "\<exists>t. fst (enqueueRun runId w) = [t] \<and> scheduling t = Some runId
           \<and> activeRuns (snd (enqueueRun runId w)) = insert runId (activeRuns w)"
    by (rule enqueueRun_started)
next
  assume "scheduling t = Some runId \<and> (\<forall>e. t \<noteq> ExecSettled runId e)"
  then show "\<exists>t'. fst (resume t fr w) = [t'] \<and> scheduling t' = Some runId
           \<and> activeRuns (snd (resume t fr w)) = activeRuns w"
    using resume_scheduling by blast
next
  show "resume (ExecSettled runId e) fr w = ([], w\<lparr>activeRuns := activeRuns w - {runId}\<rparr>)"
    by simp
next
  assume inv: "oneSchedulerPerRun s"
  then show "oneSchedulerPerRun (runActions as s)"
    by (rule runActions_keeps_one_scheduler)
  then have "distinct (schedulers (snd (runActions as s)))"
    by (simp add: oneSchedulerPerRun_def)
  then show "length (filter (\<lambda>x. x = runId) (schedulers (snd (runActions as s)))) \<le> 1"
    using distinct_at_most_once [of _ runId] by simp
next
  assume "activeRuns w = {}"
  then have "oneSchedulerPerRun (w, [])" by (simp add: oneSchedulerPerRun_def)
  then show "oneSchedulerPerRun (runActions as (w, []))"
    by (rule runActions_keeps_one_scheduler)
next
  assume a: "runId \<notin> activeRuns w \<and> getRun runId (db w) = Some run
        \<and> getWorkflow (wr_workflowId run) (db w) = Some wk
        \<and> nano w (nano_used w) \<notin> set (map ev_id (events (db w)))"
  let ?w = "w\<lparr>activeRuns := insert runId (activeRuns w)\<rparr>"
  have run: "getRun runId (db ?w) = Some run"
    and wk: "getWorkflow (wr_workflowId run) (db ?w) = Some wk"
    and fresh: "nano ?w (nano_used ?w) \<notin> set (map ev_id (events (db ?w)))"
    using a by simp_all
  from a have enq: "enqueueRun runId w = ([fst (execute runId ?w)], snd (execute runId ?w))"
    by (simp add: enqueueRun_inactive)
  show "fst (enqueueRun runId w) = [ExecPublishStart runId (wr_workflowId run)]"
    using execute_existing(1) [OF run wk fresh] by (simp add: enq)
  show "map_option wr_status (getRun runId (db (snd (enqueueRun runId w)))) = Some RUNNING"
    using execute_existing(2) [OF run wk fresh] by (simp add: enq)
  show "events (db (snd (enqueueRun runId w))) = events (db w) @
            [\<lparr>ev_id = nano w (nano_used w), ev_workflowRunId = runId, ev_stepRunId = None,
              ev_type = RUN_STARTED, ev_message = ''Run started'',
              ev_createdAt = clock w (Suc (clock_used w))\<rparr>]"
    using execute_existing(3) [OF run wk fresh] by (simp add: enq)
next
  assume "runId \<notin> activeRuns w \<and> getRun runId (db w) = None"
  then show "enqueueRun runId w =
          ([ExecSettled runId None], w\<lparr>activeRuns := insert runId (activeRuns w)\<rparr>)"
    by (simp add: enqueueRun_inactive execute_absent)
qed

theorem enqueueRun_idempotent_witness:
  "''r'' \<in> activeRuns exSleeping
   \<and> enqueueRun ''r'' exSleeping = ([], exSleeping)
   \<and> ''r'' \<notin> activeRuns exAwaiting \<and> activeRuns exAwaiting = {}
   \<and> getRun ''r'' (db exAwaiting) = Some (exRun RUNNING (Some 101) None)
   \<and> getWorkflow ''wf'' (db exAwaiting) \<noteq> None
   \<and> exNano 0 \<notin> set (map ev_id (events (db exAwaiting)))
   \<and> fst (enqueueRun ''r'' exAwaiting) = [ExecPublishStart ''r'' ''wf'']
   \<and> activeRuns (snd (enqueueRun ''r'' exAwaiting)) = {''r''}
   \<and> map ev_type (events (db (snd (enqueueRun ''r'' exAwaiting))))
       = [RUN_STARTED, RUN_STARTED, STEP_STARTED, RUN_STARTED]
   \<and> getRun ''zz'' (db exAwaiting) = None
   \<and> fst (enqueueRun ''zz'' exAwaiting) = [ExecSettled ''zz'' None]
   \<and> scheduling exSleepingTask = Some ''r''
   \<and> (\<exists>t'. fst (resume exSleepingTask (Rejected []) exSleeping) = [t'] \<and> scheduling t' = Some ''r''
          \<and> activeRuns (snd (resume exSleepingTask (Rejected []) exSleeping)) = {''r''})
   \<and> oneSchedulerPerRun (exSleeping, [exSleepingTask])
   \<and> oneSchedulerPerRun
        (runActions [CallEnqueueRun ''r'', CallEnqueueRun ''r'', Resume 0 (Rejected [])]
           (exSleeping, [exSleepingTask]))
   \<and> oneSchedulerPerRun
        (runActions [CallEnqueueRun ''r'', CallEnqueueRun ''r'', CallEnqueueRun ''r'']
           (exAwaiting, []))"
proof -
  have act1: "activeRuns exSleeping = {''r''}" and act2: "activeRuns exAwaiting = {}"
    by (simp_all add: exSleeping_def exAwaiting_def exWorld_def)
  have tsk: "scheduling exSleepingTask = Some ''r''"
    and ns: "\<forall>e. exSleepingTask \<noteq> ExecSettled ''r'' e"
    by (simp_all add: exSleepingTask_def)
  have inv: "oneSchedulerPerRun (exSleeping, [exSleepingTask])"
    by (simp add: oneSchedulerPerRun_def act1 tsk)
  note a = enqueueRun_idempotent [of "''r''" exSleeping exSleepingTask "Rejected []" undefined
      "(exSleeping, [exSleepingTask])" "[CallEnqueueRun ''r'', CallEnqueueRun ''r'', Resume 0 (Rejected [])]"]
  note b = enqueueRun_idempotent [of "''r''" exAwaiting exSleepingTask "Rejected []" undefined
      "(exSleeping, [exSleepingTask])" "[CallEnqueueRun ''r'', CallEnqueueRun ''r'', CallEnqueueRun ''r'']"
      "exRun RUNNING (Some 101) None" "the (getWorkflow ''wf'' (db exAwaiting))"]
  note z = enqueueRun_idempotent [of "''zz''" exAwaiting]
  have m1: "''r'' \<in> activeRuns exSleeping" by (simp add: act1)
  have m2: "''r'' \<notin> activeRuns exAwaiting" by (simp add: act2)
  have h: "getRun ''r'' (db exAwaiting) = Some (exRun RUNNING (Some 101) None)
      \<and> getWorkflow (wr_workflowId (exRun RUNNING (Some 101) None)) (db exAwaiting)
          = Some (the (getWorkflow ''wf'' (db exAwaiting)))
      \<and> nano exAwaiting (nano_used exAwaiting) \<notin> set (map ev_id (events (db exAwaiting)))"
    by (simp add: ex_defs getRun_def getWorkflow_def)
  have h2: "getWorkflow ''wf'' (db exAwaiting) \<noteq> None
      \<and> exNano 0 \<notin> set (map ev_id (events (db exAwaiting)))
      \<and> wr_workflowId (exRun RUNNING (Some 101) None) = ''wf''
      \<and> map ev_type (events (db exAwaiting)) = [RUN_STARTED, RUN_STARTED, STEP_STARTED]"
    by (simp add: ex_defs getWorkflow_def)
  have h3: "getRun ''zz'' (db exAwaiting) = None" "''zz'' \<notin> activeRuns exAwaiting"
    by (simp_all add: ex_defs getRun_def)
  have c1: "enqueueRun ''r'' exSleeping = ([], exSleeping)"
    using a [THEN conjunct1] m1 by (rule mp)
  have c2: "\<exists>t'. fst (resume exSleepingTask (Rejected []) exSleeping) = [t']
        \<and> scheduling t' = Some ''r''
        \<and> activeRuns (snd (resume exSleepingTask (Rejected []) exSleeping)) = activeRuns exSleeping"
    using a [THEN conjunct2, THEN conjunct2, THEN conjunct1] conjI [OF tsk ns] by (rule mp)
  have c3: "oneSchedulerPerRun
        (runActions [CallEnqueueRun ''r'', CallEnqueueRun ''r'', Resume 0 (Rejected [])]
           (exSleeping, [exSleepingTask]))"
    using a [THEN conjunct2, THEN conjunct2, THEN conjunct2, THEN conjunct2, THEN conjunct1,
             THEN mp, OF inv] by (rule conjunct1)
  have c4: "\<exists>t. fst (enqueueRun ''r'' exAwaiting) = [t] \<and> scheduling t = Some ''r''
          \<and> activeRuns (snd (enqueueRun ''r'' exAwaiting)) = insert ''r'' (activeRuns exAwaiting)"
    using b [THEN conjunct2, THEN conjunct1, THEN mp, OF m2] by (rule conjunct2)
  have c5: "oneSchedulerPerRun
        (runActions [CallEnqueueRun ''r'', CallEnqueueRun ''r'', CallEnqueueRun ''r'']
           (exAwaiting, []))"
    using b [THEN conjunct2, THEN conjunct2, THEN conjunct2, THEN conjunct2, THEN conjunct2,
             THEN conjunct1] act2
    by (rule mp)
  have c6: "fst (enqueueRun ''r'' exAwaiting)
        = [ExecPublishStart ''r'' (wr_workflowId (exRun RUNNING (Some 101) None))]
      \<and> map_option wr_status (getRun ''r'' (db (snd (enqueueRun ''r'' exAwaiting)))) = Some RUNNING
      \<and> events (db (snd (enqueueRun ''r'' exAwaiting))) = events (db exAwaiting) @
            [\<lparr>ev_id = nano exAwaiting (nano_used exAwaiting), ev_workflowRunId = ''r'',
              ev_stepRunId = None, ev_type = RUN_STARTED, ev_message = ''Run started'',
              ev_createdAt = clock exAwaiting (Suc (clock_used exAwaiting))\<rparr>]"
    using b [THEN conjunct2, THEN conjunct2, THEN conjunct2, THEN conjunct2, THEN conjunct2,
             THEN conjunct2, THEN conjunct1] conjI [OF m2 h]
    by (rule mp)
  have c7: "enqueueRun ''zz'' exAwaiting =
      ([ExecSettled ''zz'' None], exAwaiting\<lparr>activeRuns := insert ''zz'' (activeRuns exAwaiting)\<rparr>)"
    using z [THEN conjunct2, THEN conjunct2, THEN conjunct2, THEN conjunct2, THEN conjunct2,
             THEN conjunct2, THEN conjunct2] conjI [OF h3(2) h3(1)]
    by (rule mp)
  from c6 h2 have c6': "fst (enqueueRun ''r'' exAwaiting) = [ExecPublishStart ''r'' ''wf'']
      \<and> map ev_type (events (db (snd (enqueueRun ''r'' exAwaiting))))
          = [RUN_STARTED, RUN_STARTED, STEP_STARTED, RUN_STARTED]"
    by simp
  from c4 c6' have c4': "activeRuns (snd (enqueueRun ''r'' exAwaiting)) = {''r''}"
    by (simp add: act2)
  from c7 have c7': "fst (enqueueRun ''zz'' exAwaiting) = [ExecSettled ''zz'' None]" by simp
  show ?thesis
    using m1 c1 m2 act2 h h2 c6' c4' h3 c7' tsk c2 inv c3 c5 unfolding act1 act2
    by (intro conjI) simp_all
qed

lemma insertGivenSteps_ok:
  assumes "distinct (assignIds (nano w) (nano_used w) ss)"
    and "set (assignIds (nano w) (nano_used w) ss) \<inter> set (map ws_id (workflow_steps (db w))) = {}"
    and "wid \<in> set (map wf_id (workflows (db w)))"
  shows "fst (insertGivenSteps wid ss w) = None
     \<and> workflow_steps (db (snd (insertGivenSteps wid ss w)))
         = workflow_steps (db w) @ rowsOf wid (assignIds (nano w) (nano_used w) ss) ss
     \<and> workflows (db (snd (insertGivenSteps wid ss w))) = workflows (db w)"
  using assms
proof (induction ss arbitrary: w)
  case Nil
  then show ?case by (simp add: rowsOf_def)
next
  case (Cons s ss)
  show ?case
  proof (cases "si_id s")
    case (Some i)
    let ?row = "stepRow i wid s"
    let ?w' = "w\<lparr>db := (db w)\<lparr>workflow_steps := workflow_steps (db w) @ [?row]\<rparr>\<rparr>"
    from Cons.prems Some have i: "i \<notin> set (map ws_id (workflow_steps (db w)))"
      and d: "distinct (assignIds (nano w) (nano_used w) ss)"
      and ni: "i \<notin> set (assignIds (nano w) (nano_used w) ss)"
      and dj: "set (assignIds (nano w) (nano_used w) ss) \<inter> set (map ws_id (workflow_steps (db w))) = {}"
      by auto
    have ins: "insertStep ?row (db w) = Inr (db ?w')"
      using i Cons.prems(3) by (simp add: insertStep_def stepRow_def)
    have step: "insertGivenSteps wid (s # ss) w = insertGivenSteps wid ss ?w'"
      using Some ins by simp
    have "fst (insertGivenSteps wid ss ?w') = None
     \<and> workflow_steps (db (snd (insertGivenSteps wid ss ?w')))
         = workflow_steps (db ?w') @ rowsOf wid (assignIds (nano ?w') (nano_used ?w') ss) ss
     \<and> workflows (db (snd (insertGivenSteps wid ss ?w'))) = workflows (db ?w')"
      using d ni dj Cons.prems(3) by (intro Cons.IH) (auto simp: stepRow_def)
    then show ?thesis using Some by (simp add: step rowsOf_def del: insertGivenSteps.simps)
  next
    case None
    let ?i = "nano w (nano_used w)"
    let ?row = "stepRow ?i wid s"
    let ?w1 = "snd (nanoid w)"
    let ?w' = "?w1\<lparr>db := (db ?w1)\<lparr>workflow_steps := workflow_steps (db ?w1) @ [?row]\<rparr>\<rparr>"
    from Cons.prems None have i: "?i \<notin> set (map ws_id (workflow_steps (db w)))"
      and d: "distinct (assignIds (nano w) (Suc (nano_used w)) ss)"
      and ni: "?i \<notin> set (assignIds (nano w) (Suc (nano_used w)) ss)"
      and dj: "set (assignIds (nano w) (Suc (nano_used w)) ss) \<inter> set (map ws_id (workflow_steps (db w))) = {}"
      by auto
    have ins: "insertStep ?row (db ?w1) = Inr (db ?w')"
      using i Cons.prems(3) by (simp add: insertStep_def stepRow_def)
    have step: "insertGivenSteps wid (s # ss) w = insertGivenSteps wid ss ?w'"
      using None ins by (simp add: case_prod_beta)
    have "fst (insertGivenSteps wid ss ?w') = None
     \<and> workflow_steps (db (snd (insertGivenSteps wid ss ?w')))
         = workflow_steps (db ?w') @ rowsOf wid (assignIds (nano ?w') (nano_used ?w') ss) ss
     \<and> workflows (db (snd (insertGivenSteps wid ss ?w'))) = workflows (db ?w')"
      using d ni dj Cons.prems(3) by (intro Cons.IH) (auto simp: stepRow_def)
    then show ?thesis using None by (simp add: step rowsOf_def del: insertGivenSteps.simps)
  qed
qed


lemma assignIds_length [simp]: "length (assignIds gen n ss) = length ss"
  by (induction ss arbitrary: n) (auto split: option.splits)

lemma assignIds_given:
  "k < length ss \<Longrightarrow> si_id (ss ! k) = Some i \<Longrightarrow> assignIds gen n ss ! k = i"
proof (induction ss arbitrary: n k)
  case Nil
  then show ?case by simp
next
  case (Cons s ss)
  then show ?case by (cases k) (auto split: option.splits)
qed

lemma rowsOf_workflowId:
  "length ids = length ss \<Longrightarrow> filter (\<lambda>r. ws_workflowId r = wid) (rowsOf wid ids ss) = rowsOf wid ids ss"
  by (simp add: rowsOf_def stepRow_def case_prod_beta)

lemma rowsOf_orders:
  "length ids = length ss \<Longrightarrow> map ws_order (rowsOf wid ids ss) = map si_order ss"
  by (induction ids ss rule: list_induct2) (simp_all add: rowsOf_def stepRow_def)

lemma find_wf_None:
  "find (\<lambda>r. wf_id r = i) (workflows d) = None \<longleftrightarrow> i \<notin> set (map wf_id (workflows d))"
  by (auto simp: find_None_iff)

lemma getWorkflow_Some_iff:
  "getWorkflow i d \<noteq> None \<longleftrightarrow> i \<in> set (map wf_id (workflows d))"
  using find_wf_None [of i d]
  by (cases "find (\<lambda>r. wf_id r = i) (workflows d)") (simp_all add: getWorkflow_def)

lemma getWorkflow_steps:
  "i \<in> set (map wf_id (workflows d)) \<Longrightarrow>
   map_option w_steps (getWorkflow i d) = Some (listWorkflowSteps i d)"
  using find_wf_None [of i d]
  by (cases "find (\<lambda>r. wf_id r = i) (workflows d)") (simp_all add: getWorkflow_def)

lemma updateWorkflow_steps:
  assumes ex: "getWorkflow (ui_id inp) (db w) \<noteq> None"
    and dis: "distinct (assignIds (nano w) (nano_used w) (ui_steps inp))"
    and other: "set (assignIds (nano w) (nano_used w) (ui_steps inp))
        \<inter> set (map ws_id (filter (\<lambda>s. ws_workflowId s \<noteq> ui_id inp) (workflow_steps (db w)))) = {}"
  shows "fst (updateWorkflow inp w) = Inr (getWorkflow (ui_id inp) (db (snd (updateWorkflow inp w))))"
    and "map_option w_steps (getWorkflow (ui_id inp) (db (snd (updateWorkflow inp w))))
         = Some (sort_key ws_order
              (rowsOf (ui_id inp) (assignIds (nano w) (nano_used w) (ui_steps inp)) (ui_steps inp)))"
proof -
  let ?wid = "ui_id inp"
  let ?ids = "assignIds (nano w) (nano_used w) (ui_steps inp)"
  from ex obtain existing where e: "getWorkflow ?wid (db w) = Some existing" by blast
  let ?d1 = "updateWf ?wid (case ui_name inp of Some n \<Rightarrow> n | None \<Rightarrow> w_name existing)
               (coalesce (ui_description inp) (w_description existing)) (db w)"
  let ?d2 = "deleteSteps ?wid ?d1"
  let ?w0 = "w\<lparr>db := ?d2\<rparr>"
  have ws2: "workflow_steps ?d2 = filter (\<lambda>s. ws_workflowId s \<noteq> ?wid) (workflow_steps (db w))"
    by (simp add: deleteSteps_def updateWf_def Let_def)
  have wf2: "map wf_id (workflows ?d2) = map wf_id (workflows (db w))"
    by (simp add: deleteSteps_def updateWf_def Let_def comp_def)
  from ex have mem: "?wid \<in> set (map wf_id (workflows (db w)))"
    by (simp only: getWorkflow_Some_iff)
  have mem0: "?wid \<in> set (map wf_id (workflows (db ?w0)))"
    using mem wf2 by simp
  have dis0: "distinct (assignIds (nano ?w0) (nano_used ?w0) (ui_steps inp))"
    using dis by simp
  have oth0: "set (assignIds (nano ?w0) (nano_used ?w0) (ui_steps inp))
        \<inter> set (map ws_id (workflow_steps (db ?w0))) = {}"
    using other ws2 by simp
  note ok = insertGivenSteps_ok [OF dis0 oth0 mem0]
  let ?r = "insertGivenSteps ?wid (ui_steps inp) ?w0"
  have upd: "updateWorkflow inp w = (Inr (getWorkflow ?wid (db (snd ?r))), snd ?r)"
    using e ok by (simp add: updateWorkflow_def Let_def case_prod_beta split: prod.splits)
  show "fst (updateWorkflow inp w) = Inr (getWorkflow ?wid (db (snd (updateWorkflow inp w))))"
    by (simp add: upd)
  have steps: "workflow_steps (db (snd ?r))
      = filter (\<lambda>s. ws_workflowId s \<noteq> ?wid) (workflow_steps (db w)) @ rowsOf ?wid ?ids (ui_steps inp)"
    using ok ws2 by simp
  have memr: "?wid \<in> set (map wf_id (workflows (db (snd ?r))))"
    using ok mem0 by simp
  have "listWorkflowSteps ?wid (db (snd ?r)) = sort_key ws_order (rowsOf ?wid ?ids (ui_steps inp))"
    by (simp add: listWorkflowSteps_def steps rowsOf_workflowId)
  with getWorkflow_steps [OF memr]
  show "map_option w_steps (getWorkflow ?wid (db (snd (updateWorkflow inp w))))
         = Some (sort_key ws_order (rowsOf ?wid ?ids (ui_steps inp)))"
    by (simp add: upd)
qed





lemma createRun_missing_workflow:
  assumes "workflowId \<notin> set (map wf_id (workflows (db w)))"
  shows "\<exists>e. fst (createRun workflowId w) = Inl e" and "db (snd (createRun workflowId w)) = db w"
  using assms by (simp_all add: createRun_def insertRun_def Let_def case_prod_beta)

lemma insertStepRuns_ok:
  assumes "distinct (nextIds (nano w) (nano_used w) (length ss))"
    and "set (nextIds (nano w) (nano_used w) (length ss)) \<inter> set (map sr_id (step_runs (db w))) = {}"
    and "runId \<in> set (map wr_id (workflow_runs (db w)))"
    and "set (map ws_id ss) \<subseteq> set (map ws_id (workflow_steps (db w)))"
  shows "fst (insertStepRuns runId ss w) = None
     \<and> step_runs (db (snd (insertStepRuns runId ss w)))
         = step_runs (db w) @ pendingStepRuns runId (nextIds (nano w) (nano_used w) (length ss)) ss
     \<and> workflow_runs (db (snd (insertStepRuns runId ss w))) = workflow_runs (db w)"
  using assms
proof (induction ss arbitrary: w)
  case Nil
  then show ?case by (simp add: pendingStepRuns_def)
next
  case (Cons s ss)
  let ?i = "nano w (nano_used w)"
  let ?row = "\<lparr>sr_id = ?i, sr_workflowRunId = runId, sr_workflowStepId = ws_id s,
               sr_status = PENDING, sr_startedAt = None, sr_finishedAt = None\<rparr>"
  let ?w1 = "snd (nanoid w)"
  let ?w' = "?w1\<lparr>db := (db ?w1)\<lparr>step_runs := step_runs (db ?w1) @ [?row]\<rparr>\<rparr>"
  from Cons.prems have i: "?i \<notin> set (map sr_id (step_runs (db w)))"
    and d: "distinct (nextIds (nano w) (Suc (nano_used w)) (length ss))"
    and ni: "?i \<notin> set (nextIds (nano w) (Suc (nano_used w)) (length ss))"
    and dj: "set (nextIds (nano w) (Suc (nano_used w)) (length ss)) \<inter> set (map sr_id (step_runs (db w))) = {}"
    and st: "ws_id s \<in> set (map ws_id (workflow_steps (db w)))"
      "set (map ws_id ss) \<subseteq> set (map ws_id (workflow_steps (db w)))"
    by auto
  have ins: "insertStepRun ?row (db ?w1) = Inr (db ?w')"
    using i st Cons.prems(3) by (simp add: insertStepRun_def)
  have step: "insertStepRuns runId (s # ss) w = insertStepRuns runId ss ?w'"
    using ins by (simp add: case_prod_beta)
  have "fst (insertStepRuns runId ss ?w') = None
     \<and> step_runs (db (snd (insertStepRuns runId ss ?w')))
         = step_runs (db ?w') @ pendingStepRuns runId (nextIds (nano ?w') (nano_used ?w') (length ss)) ss
     \<and> workflow_runs (db (snd (insertStepRuns runId ss ?w'))) = workflow_runs (db ?w')"
    using d ni dj st Cons.prems(3) by (intro Cons.IH) auto
  then show ?case by (simp add: step pendingStepRuns_def del: insertStepRuns.simps)
qed

lemma find_app:
  "find P (xs @ ys) = (case find P xs of None \<Rightarrow> find P ys | Some x \<Rightarrow> Some x)"
  by (induction xs) simp_all

lemma listWorkflowSteps_subset:
  "set (map ws_id (listWorkflowSteps i d)) \<subseteq> set (map ws_id (workflow_steps d))"
  by (auto simp: listWorkflowSteps_def)

lemma createRun_ok:
  assumes wk: "workflowId \<in> set (map wf_id (workflows (db w)))"
    and r: "nano w (nano_used w) \<notin> set (map wr_id (workflow_runs (db w)))"
    and d: "distinct (nextIds (nano w) (Suc (nano_used w)) (length (listWorkflowSteps workflowId (db w))))"
    and dj: "set (nextIds (nano w) (Suc (nano_used w)) (length (listWorkflowSteps workflowId (db w))))
              \<inter> set (map sr_id (step_runs (db w))) = {}"
  shows "workflow_runs (db (snd (createRun workflowId w))) = workflow_runs (db w) @
           [\<lparr>wr_id = nano w (nano_used w), wr_workflowId = workflowId, wr_status = PENDING,
             wr_createdAt = clock w (clock_used w), wr_startedAt = None, wr_finishedAt = None\<rparr>]"
    and "step_runs (db (snd (createRun workflowId w))) = step_runs (db w) @
           pendingStepRuns (nano w (nano_used w))
             (nextIds (nano w) (Suc (nano_used w)) (length (listWorkflowSteps workflowId (db w))))
             (listWorkflowSteps workflowId (db w))"
    and "\<exists>run. fst (createRun workflowId w) = Inr (Some run) \<and> wr_status run = PENDING"
proof -
  let ?i = "nano w (nano_used w)"
  let ?run = "\<lparr>wr_id = ?i, wr_workflowId = workflowId, wr_status = PENDING,
             wr_createdAt = clock w (clock_used w), wr_startedAt = None, wr_finishedAt = None\<rparr>"
  let ?w2 = "snd (now (snd (nanoid w)))"
  let ?d = "(db w)\<lparr>workflow_runs := workflow_runs (db w) @ [?run]\<rparr>"
  let ?w3 = "?w2\<lparr>db := ?d\<rparr>"
  let ?steps = "listWorkflowSteps workflowId (db w)"
  have ins: "insertRun ?run (db ?w2) = Inr ?d"
    using wk r by (simp add: insertRun_def)
  have steps: "listWorkflowSteps workflowId ?d = ?steps"
    by (simp add: listWorkflowSteps_def)
  have ok: "fst (insertStepRuns ?i ?steps ?w3) = None
     \<and> step_runs (db (snd (insertStepRuns ?i ?steps ?w3)))
         = step_runs (db ?w3) @ pendingStepRuns ?i (nextIds (nano ?w3) (nano_used ?w3) (length ?steps)) ?steps
     \<and> workflow_runs (db (snd (insertStepRuns ?i ?steps ?w3))) = workflow_runs (db ?w3)"
    using d dj listWorkflowSteps_subset [of workflowId "db w"]
    by (intro insertStepRuns_ok) simp_all
  have cr: "createRun workflowId w =
      (Inr (getRun ?i (db (snd (insertStepRuns ?i ?steps ?w3)))), snd (insertStepRuns ?i ?steps ?w3))"
    using ins ok by (simp add: createRun_def Let_def case_prod_beta steps split: prod.splits)
  show "workflow_runs (db (snd (createRun workflowId w))) = workflow_runs (db w) @ [?run]"
    using ok by (simp add: cr)
  show "step_runs (db (snd (createRun workflowId w))) = step_runs (db w) @
           pendingStepRuns ?i (nextIds (nano w) (Suc (nano_used w)) (length ?steps)) ?steps"
    using ok by (simp add: cr)
  have "find (\<lambda>x. wr_id x = ?i) (workflow_runs (db w)) = None"
    using r by (force simp: find_None_iff image_iff)
  then have "getRun ?i (db (snd (insertStepRuns ?i ?steps ?w3))) = Some ?run"
    using ok by (simp add: getRun_def find_app)
  then show "\<exists>run. fst (createRun workflowId w) = Inr (Some run) \<and> wr_status run = PENDING"
    by (simp add: cr)
qed

text \<open>
  C4 (the code at the failing input). createRun inserts the run row by a statement of its
  own and only then opens the transaction for the StepRuns. In the world exCollide the
  workflow ''wf'' exists and the generator's second id is taken: the StepRun insert
  throws, the transaction rolls back, createRun fails, and the run ''r2'' stays in
  workflow_runs with no StepRun.
\<close>

theorem createRun_leaves_run_without_steps:
  "getWorkflow ''wf'' (db exCollide) \<noteq> None
   \<and> fst (createRun ''wf'' exCollide) = Inl (SqliteError ''UNIQUE constraint failed: step_runs.id'')
   \<and> map wr_id (workflow_runs (db exCollide)) = [''r'']
   \<and> map (\<lambda>r. (wr_id r, wr_status r)) (workflow_runs (db (snd (createRun ''wf'' exCollide))))
       = [(''r'', RUNNING), (''r2'', PENDING)]
   \<and> listStepRuns ''r2'' (db (snd (createRun ''wf'' exCollide))) = []
   \<and> length (listWorkflowSteps ''wf'' (db exCollide)) = 2"
  by (simp add: ex_defs store_defs createRun_def insertRun_def insertStepRun_def Let_def)

section \<open>The example worlds are reached through the API\<close>

text \<open>
  The databases of the example worlds are the ones the process produces from an empty
  store: createWorkflow, startRun and the first pass give exAwaiting; a manual completion
  of StepRun ''a'' with failure gives exFailed, its first segment with success exResumed.
\<close>

lemmas run_defs = runActions_def createWorkflow_def insertWorkflow_def insertStep_def stepRow_def
  config_or_empty_def startRun_def createRun_def insertRun_def insertStepRun_def
  enqueueRun_def execute_def completeManualStep_def Let_def

lemma exAwaiting_reached:
  "db (fst (runActions exHistory (exStart, []))) = db exAwaiting"
  by (simp add: ex_defs store_defs run_defs)

lemma exFailed_reached:
  "db (fst (runActions (exHistory @ [CallCompleteManualStep ''a'' False, Resume 2 (Rejected [])])
         (exStart, []))) = db exFailed"
  by (simp add: ex_defs store_defs run_defs)

lemma exResumed_reached:
  "db (fst (runActions (exHistory @ [CallCompleteManualStep ''a'' True]) (exStart, [])))
     = db exResumed"
  by (simp add: ex_defs store_defs run_defs)

section \<open>Step events keep their order\<close>

lemma startedTask_simps [simp]:
  "startedTask d (StepPublishStarted r sr ty c rest m)
     = (hasStarted r (sr_id sr) d \<or> sr_id sr \<notin> set (map sr_id (step_runs d)))"
  "startedTask d (StepSleeping r sr rest m)
     = (hasStarted r (sr_id sr) d \<or> sr_id sr \<notin> set (map sr_id (step_runs d)))"
  "startedTask d (StepFetching r sr url mth rest m)
     = (hasStarted r (sr_id sr) d \<or> sr_id sr \<notin> set (map sr_id (step_runs d)))"
  "startedTask d (ExecPublishStart r wid)"
  "startedTask d (ExecPublishManual r)"
  "startedTask d (StepPublishDone r rest m)"
  "startedTask d (ExecPublishFinal r)"
  "startedTask d (ExecSettled r e)"
  "startedTask d (CompletePublishStep sr i success)"
  "startedTask d (CompletePublishRun i)"
  "startedTask d (CompleteEnqueued i)"
  "startedTask d (CompleteReturned res)"
  "startedTask d (StartRunEnqueued run)"
  "startedTask d (StartRunReturned res2)"
  by (simp_all add: startedTask_def)

lemma causal_append:
  "causal seen (xs @ ys) \<longleftrightarrow> causal seen xs \<and> causal (seen @ xs) ys"
  by (induction xs arbitrary: seen) auto

lemma journalGrows_iff:
  "journalGrows d d' \<longleftrightarrow> (\<exists>xs. events d' = events d @ xs \<and> causal (events d) xs)"
proof
  assume "journalGrows d d'"
  then have "events d' = events d @ drop (length (events d)) (events d')"
    "causal (events d) (drop (length (events d)) (events d'))"
    unfolding journalGrows_def by (metis append_take_drop_id, simp)
  then show "\<exists>xs. events d' = events d @ xs \<and> causal (events d) xs" by blast
next
  assume "\<exists>xs. events d' = events d @ xs \<and> causal (events d) xs"
  then show "journalGrows d d'" by (auto simp: journalGrows_def)
qed

lemma journalGrows_refl: "events d' = events d \<Longrightarrow> journalGrows d d'"
  by (simp add: journalGrows_def)

lemma journalGrows_trans:
  assumes "journalGrows d1 d2" "journalGrows d2 d3"
  shows "journalGrows d1 d3"
proof -
  from assms obtain xs ys where "events d2 = events d1 @ xs" "causal (events d1) xs"
    "events d3 = events d2 @ ys" "causal (events d2) ys"
    unfolding journalGrows_iff by blast
  then have "events d3 = events d1 @ (xs @ ys) \<and> causal (events d1) (xs @ ys)"
    by (simp add: causal_append)
  then show ?thesis unfolding journalGrows_iff by blast
qed

lemma journalGrows_prefix: "journalGrows d d' \<Longrightarrow> prefix (events d) (events d')"
  unfolding journalGrows_iff prefix_def by blast

lemma prefix_hasStarted:
  "prefix (events d) (events d') \<Longrightarrow> hasStarted r i d \<Longrightarrow> hasStarted r i d'"
  unfolding hasStarted_def prefix_def by (auto simp: list_ex_iff)

lemma journalGrows_hasStarted:
  "journalGrows d d' \<Longrightarrow> hasStarted r i d \<Longrightarrow> hasStarted r i d'"
  by (rule prefix_hasStarted [OF journalGrows_prefix])

lemma startedTask_kept:
  assumes "startedTask d t" and "prefix (events d) (events d')"
    and "\<And>r i. heldStepRun t = Some (r, i) \<Longrightarrow> i \<in> set (map sr_id (step_runs d'))
           \<Longrightarrow> i \<in> set (map sr_id (step_runs d))"
  shows "startedTask d' t"
proof (cases "heldStepRun t")
  case None
  then show ?thesis by (simp add: startedTask_def)
next
  case (Some p)
  obtain r i where p: "p = (r, i)" by (cases p)
  from assms(1) Some p
  have "hasStarted r i d \<or> i \<notin> set (map sr_id (step_runs d))" by (simp add: startedTask_def)
  then have "hasStarted r i d' \<or> i \<notin> set (map sr_id (step_runs d'))"
    using prefix_hasStarted [OF assms(2)] assms(3) [of r i] Some p by blast
  with Some p show ?thesis by (simp add: startedTask_def)
qed

lemma appendEvent_prefix: "prefix (events (db w)) (events (db (snd (appendEvent inp w))))"
  by (simp add: appendEvent_events)

lemma appendEvent_grows:
  assumes "isStepEnd (newEvent inp w) \<Longrightarrow> accepts (db w) (newEvent inp w) \<Longrightarrow>
      list_ex (isStartOf (in_workflowRunId inp) (in_stepRunId inp)) (events (db w))"
  shows "journalGrows (db w) (db (snd (appendEvent inp w)))"
proof (cases "accepts (db w) (newEvent inp w)")
  case False
  then show ?thesis by (simp add: journalGrows_def appendEvent_events)
next
  case True
  with assms show ?thesis
    by (simp add: journalGrows_def appendEvent_events newEvent_def isStepEnd_def)
qed

lemma appendEvent_started:
  "fst (appendEvent inp w) = None \<Longrightarrow> in_type inp = STEP_STARTED \<Longrightarrow>
   in_workflowRunId inp = r \<Longrightarrow> in_stepRunId inp = Some i \<Longrightarrow>
   hasStarted r i (db (snd (appendEvent inp w)))"
  by (simp add: appendEvent_fst appendEvent_events hasStarted_def isStartOf_def newEvent_def)

lemma journalGrows_from:
  "events d1 = events d2 \<Longrightarrow> journalGrows d2 d' \<Longrightarrow> journalGrows d1 d'"
  by (simp add: journalGrows_def)

lemma update_append_grows:
  assumes "events (db u) = events (db w)"
    and "in_type inp = STEP_SUCCEEDED \<or> in_type inp = STEP_FAILED \<Longrightarrow>
          in_stepRunId inp = Some i
          \<and> (hasStarted (in_workflowRunId inp) i (db w)
             \<or> i \<notin> set (map sr_id (step_runs (db u))))"
  shows "journalGrows (db w) (db (snd (appendEvent inp u)))"
proof (rule journalGrows_from [OF assms(1) [symmetric]], rule appendEvent_grows)
  assume "isStepEnd (newEvent inp u)" and acc: "accepts (db u) (newEvent inp u)"
  then have "in_type inp = STEP_SUCCEEDED \<or> in_type inp = STEP_FAILED"
    by (simp add: isStepEnd_def newEvent_def)
  from assms(2) [OF this] have i: "in_stepRunId inp = Some i"
    and d: "hasStarted (in_workflowRunId inp) i (db w) \<or> i \<notin> set (map sr_id (step_runs (db u)))"
    by simp_all
  from acc i have "i \<in> set (map sr_id (step_runs (db u)))"
    by (simp add: accepts_newEvent)
  with d have "hasStarted (in_workflowRunId inp) i (db w)" by simp
  then show "list_ex (isStartOf (in_workflowRunId inp) (in_stepRunId inp)) (events (db u))"
    by (simp add: hasStarted_def assms(1) i)
qed

lemma execute_grows: "journalGrows (db w) (db (snd (execute r w)))"
proof (cases "getRun r (db w)")
  case None
  then show ?thesis by (simp add: execute_def journalGrows_refl)
next
  case (Some run)
  show ?thesis
  proof (cases "getWorkflow (wr_workflowId run) (db w)")
    case None
    with Some show ?thesis by (simp add: execute_def journalGrows_refl)
  next
    case (Some wk)
    let ?inp = "\<lparr>in_workflowRunId = r, in_stepRunId = None, in_type = RUN_STARTED,
                 in_message = ''Run started''\<rparr>"
    have "snd (execute r w) = snd (appendEvent ?inp (updateRunStatus r RUNNING w))"
      using \<open>getRun r (db w) = Some run\<close> Some
      by (simp add: execute_def Let_def case_prod_beta split: option.splits)
    moreover have "journalGrows (db w) (db (snd (appendEvent ?inp (updateRunStatus r RUNNING w))))"
      by (rule update_append_grows) simp_all
    ultimately show ?thesis by simp
  qed
qed

lemma execute_startedTask: "startedTask d (fst (execute r w))"
  by (simp add: execute_def Let_def case_prod_beta split: option.splits)

lemma enqueueRun_grows: "journalGrows (db w) (db (snd (enqueueRun r w)))"
proof (cases "r \<in> activeRuns w")
  case True
  then show ?thesis by (simp add: enqueueRun_def journalGrows_refl)
next
  case False
  then have "snd (enqueueRun r w) = snd (execute r (w\<lparr>activeRuns := insert r (activeRuns w)\<rparr>))"
    by (simp add: enqueueRun_def case_prod_beta)
  with execute_grows [of "w\<lparr>activeRuns := insert r (activeRuns w)\<rparr>" r]
  show ?thesis by simp
qed

lemma enqueueRun_startedTask: "list_all (startedTask d) (fst (enqueueRun r w))"
  by (simp add: enqueueRun_def case_prod_beta execute_startedTask)

lemma runNonManualStep_grows:
  "journalGrows (db w) (db (snd (runNonManualStep r sr ty c rest m w)))"
proof -
  let ?inp = "\<lparr>in_workflowRunId = r, in_stepRunId = Some (sr_id sr), in_type = STEP_STARTED,
               in_message = ''Step started''\<rparr>"
  have "snd (runNonManualStep r sr ty c rest m w)
        = snd (appendEvent ?inp (updateStepRunStatus (sr_id sr) RUNNING w))"
    by (simp add: runNonManualStep_def Let_def case_prod_beta split: option.splits)
  moreover have "journalGrows (db w) (db (snd (appendEvent ?inp (updateStepRunStatus (sr_id sr) RUNNING w))))"
    by (rule update_append_grows) simp_all
  ultimately show ?thesis by simp
qed

lemma runNonManualStep_ids [simp]:
  "map sr_id (step_runs (db (snd (runNonManualStep r sr ty c rest m w))))
     = map sr_id (step_runs (db w))"
  by (simp add: runNonManualStep_def Let_def case_prod_beta split: option.splits)

lemma runNonManualStep_startedTask:
  "startedTask (db (snd (runNonManualStep r sr ty c rest m w)))
     (fst (runNonManualStep r sr ty c rest m w))"
proof -
  let ?inp = "\<lparr>in_workflowRunId = r, in_stepRunId = Some (sr_id sr), in_type = STEP_STARTED,
               in_message = ''Step started''\<rparr>"
  let ?a = "appendEvent ?inp (updateStepRunStatus (sr_id sr) RUNNING w)"
  show ?thesis
  proof (cases "fst ?a")
    case None
    from appendEvent_started [OF None, of r "sr_id sr"]
    have "hasStarted r (sr_id sr) (db (snd ?a))" by simp
    with None show ?thesis
      by (simp add: runNonManualStep_def Let_def case_prod_beta)
  next
    case (Some e)
    then show ?thesis by (simp add: runNonManualStep_def Let_def case_prod_beta)
  qed
qed

lemma loop_grows: "journalGrows (db w) (db (snd (loop r steps m w)))"
proof (induction r steps m w rule: loop.induct)
  case (1 runId m w)
  let ?inp = "\<lparr>in_workflowRunId = runId, in_stepRunId = None, in_type = RUN_SUCCEEDED,
               in_message = ''Run succeeded''\<rparr>"
  have "snd (loop runId [] m w) = snd (appendEvent ?inp (updateRunStatus runId SUCCEEDED w))"
    by (simp add: Let_def case_prod_beta split: option.splits)
  moreover have "journalGrows (db w) (db (snd (appendEvent ?inp (updateRunStatus runId SUCCEEDED w))))"
    by (rule update_append_grows) simp_all
  ultimately show ?case by simp
next
  case (2 runId step rest m w)
  show ?case
  proof (cases "lookupEntry m (ws_id step)")
    case Absent
    with 2 show ?thesis by simp
  next
    case Inherited
    then show ?thesis by (simp add: journalGrows_refl now_def)
  next
    case (Own stepRun)
    let ?f = "\<lparr>in_workflowRunId = runId, in_stepRunId = Some (sr_id stepRun),
               in_type = RUN_FAILED, in_message = ''Run already failed''\<rparr>"
    let ?s = "\<lparr>in_workflowRunId = runId, in_stepRunId = Some (sr_id stepRun),
               in_type = STEP_STARTED,
               in_message = ''Manual step '' @ [CHR 0x27] @ ws_name step
                                  @ [CHR 0x27] @ '' awaiting completion''\<rparr>"
    have gf: "journalGrows (db w) (db (snd (appendEvent ?f (updateRunStatus runId FAILED w))))"
      by (rule update_append_grows) simp_all
    have gs: "journalGrows (db w) (db (snd (appendEvent ?s w)))"
      by (rule update_append_grows) simp_all
    consider "sr_status stepRun = SUCCEEDED" | "sr_status stepRun = FAILED"
      | "sr_status stepRun \<noteq> SUCCEEDED" "sr_status stepRun \<noteq> FAILED" "ws_type step = MANUAL"
      | "sr_status stepRun \<noteq> SUCCEEDED" "sr_status stepRun \<noteq> FAILED" "ws_type step \<noteq> MANUAL"
      by blast
    then show ?thesis
    proof cases
      case 1
      with 2 Own show ?thesis by simp
    next
      case 2
      with Own gf show ?thesis by (simp add: Let_def case_prod_beta)
    next
      case 3
      with Own gs show ?thesis
        by (simp add: Let_def case_prod_beta journalGrows_refl split: option.splits)
    next
      case 4
      with Own runNonManualStep_grows show ?thesis by simp
    qed
  qed
qed

lemma loop_ids [simp]:
  "map sr_id (step_runs (db (snd (loop r steps m w)))) = map sr_id (step_runs (db w))"
  by (induction r steps m w rule: loop.induct)
     (simp_all add: Let_def case_prod_beta now_def split: option.splits entry.splits)

lemma loop_startedTask: "startedTask (db (snd (loop r steps m w))) (fst (loop r steps m w))"
proof (induction r steps m w rule: loop.induct)
  case (1 runId m w)
  show ?case by (simp add: Let_def case_prod_beta split: option.splits)
next
  case (2 runId step rest m w)
  show ?case
  proof (cases "lookupEntry m (ws_id step)")
    case Absent
    with 2 show ?thesis by simp
  next
    case Inherited
    then show ?thesis by simp
  next
    case (Own stepRun)
    consider "sr_status stepRun = SUCCEEDED" | "sr_status stepRun = FAILED"
      | "sr_status stepRun \<noteq> SUCCEEDED" "sr_status stepRun \<noteq> FAILED" "ws_type step = MANUAL"
      | "sr_status stepRun \<noteq> SUCCEEDED" "sr_status stepRun \<noteq> FAILED" "ws_type step \<noteq> MANUAL"
      by blast
    then show ?thesis
    proof cases
      case 1
      with 2 Own show ?thesis by simp
    next
      case 2
      with Own show ?thesis by (simp add: Let_def case_prod_beta)
    next
      case 3
      with Own show ?thesis
        by (simp add: Let_def case_prod_beta split: option.splits)
    next
      case 4
      with Own runNonManualStep_startedTask show ?thesis by simp
    qed
  qed
qed

lemma stepSucceeded_ids [simp]:
  "map sr_id (step_runs (db (snd (stepSucceeded r sr w)))) = map sr_id (step_runs (db w))"
  by (simp add: stepSucceeded_def)

lemma stepFailed_ids [simp]:
  "map sr_id (step_runs (db (snd (stepFailed r sr e w)))) = map sr_id (step_runs (db w))"
  by (simp add: stepFailed_def Let_def case_prod_beta split: option.splits)

lemma finishStep_ids [simp]:
  "map sr_id (step_runs (db (snd (finishStep r sr rest m thrown w)))) = map sr_id (step_runs (db w))"
  by (simp add: finishStep_def Let_def case_prod_beta split: option.splits prod.splits)

lemma stepFailed_grows:
  assumes "hasStarted r (sr_id sr) (db w) \<or> sr_id sr \<notin> set (map sr_id (step_runs (db w)))"
  shows "journalGrows (db w) (db (snd (stepFailed r sr e w)))"
proof -
  let ?inp1 = "\<lparr>in_workflowRunId = r, in_stepRunId = Some (sr_id sr),
                 in_type = STEP_FAILED, in_message = ''Step failed: '' @ err_message e\<rparr>"
  let ?a = "appendEvent ?inp1 (updateStepRunStatus (sr_id sr) FAILED w)"
  let ?inp2 = "\<lparr>in_workflowRunId = r, in_stepRunId = None,
                 in_type = RUN_FAILED, in_message = ''Run failed''\<rparr>"
  let ?b = "appendEvent ?inp2 (updateRunStatus r FAILED (snd ?a))"
  have g1: "journalGrows (db w) (db (snd ?a))"
    using assms by (intro update_append_grows [where i = "sr_id sr"]) simp_all
  have g2: "journalGrows (db (snd ?a)) (db (snd ?b))"
    by (rule update_append_grows) simp_all
  show ?thesis
  proof (cases "fst ?a")
    case None
    then have "snd (stepFailed r sr e w) = snd ?b"
      by (simp add: stepFailed_def Let_def case_prod_beta)
    with journalGrows_trans [OF g1 g2] show ?thesis by simp
  next
    case (Some x)
    then have "snd (stepFailed r sr e w) = snd ?a"
      by (simp add: stepFailed_def Let_def case_prod_beta)
    with g1 show ?thesis by simp
  qed
qed

lemma stepSucceeded_grows:
  assumes "hasStarted r (sr_id sr) (db w) \<or> sr_id sr \<notin> set (map sr_id (step_runs (db w)))"
  shows "journalGrows (db w) (db (snd (stepSucceeded r sr w)))"
  unfolding stepSucceeded_def
  using assms by (intro update_append_grows [where i = "sr_id sr"]) simp_all

lemma finishStep_grows:
  assumes "hasStarted r (sr_id sr) (db w) \<or> sr_id sr \<notin> set (map sr_id (step_runs (db w)))"
  shows "journalGrows (db w) (db (snd (finishStep r sr rest m thrown w)))"
proof (cases thrown)
  case (Some e)
  then have "snd (finishStep r sr rest m thrown w) = snd (stepFailed r sr e w)"
    by (simp add: finishStep_def Let_def case_prod_beta split: option.splits prod.splits)
  with stepFailed_grows [OF assms, of e] show ?thesis by simp
next
  case None
  let ?s = "stepSucceeded r sr w"
  note g1 = stepSucceeded_grows [OF assms]
  show ?thesis
  proof (cases "fst ?s")
    case None
    with \<open>thrown = None\<close> have "snd (finishStep r sr rest m thrown w) = snd ?s"
      by (simp add: finishStep_def Let_def case_prod_beta)
    with g1 show ?thesis by simp
  next
    case (Some e)
    with \<open>thrown = None\<close> have "snd (finishStep r sr rest m thrown w) = snd (stepFailed r sr e (snd ?s))"
      by (simp add: finishStep_def Let_def case_prod_beta split: option.splits prod.splits)
    moreover have "hasStarted r (sr_id sr) (db (snd ?s))
        \<or> sr_id sr \<notin> set (map sr_id (step_runs (db (snd ?s))))"
      using assms journalGrows_hasStarted [OF g1] by auto
    then have "journalGrows (db (snd ?s)) (db (snd (stepFailed r sr e (snd ?s))))"
      by (rule stepFailed_grows)
    ultimately show ?thesis using journalGrows_trans [OF g1] by simp
  qed
qed

lemma finishStep_startedTask: "startedTask d (fst (finishStep r sr rest m thrown w))"
  by (simp add: finishStep_def Let_def case_prod_beta split: option.splits prod.splits)

lemma resume_grows:
  assumes "startedTask (db w) t"
  shows "journalGrows (db w) (db (snd (resume t fr w)))"
proof (cases t)
  case (ExecPublishStart r wid)
  then show ?thesis by (simp add: Let_def case_prod_beta loop_grows)
next
  case (StepPublishStarted r sr ty c rest m)
  with assms have "hasStarted r (sr_id sr) (db w) \<or> sr_id sr \<notin> set (map sr_id (step_runs (db w)))"
    by simp
  from finishStep_grows [OF this] StepPublishStarted show ?thesis
    by (simp add: Let_def case_prod_beta journalGrows_refl)
next
  case (StepSleeping r sr rest m)
  with assms have "hasStarted r (sr_id sr) (db w) \<or> sr_id sr \<notin> set (map sr_id (step_runs (db w)))"
    by simp
  from finishStep_grows [OF this] StepSleeping show ?thesis
    by (simp add: Let_def case_prod_beta)
next
  case (StepFetching r sr url mth rest m)
  with assms have "hasStarted r (sr_id sr) (db w) \<or> sr_id sr \<notin> set (map sr_id (step_runs (db w)))"
    by simp
  from finishStep_grows [OF this] StepFetching show ?thesis
    by (simp add: Let_def case_prod_beta)
next
  case (StepPublishDone r rest m)
  then show ?thesis by (simp add: Let_def case_prod_beta loop_grows journalGrows_refl)
next
  case (CompletePublishStep sr i success)
  let ?inp = "\<lparr>in_workflowRunId = sr_workflowRunId sr, in_stepRunId = None,
               in_type = RUN_FAILED, in_message = ''Run failed by manual step''\<rparr>"
  have "journalGrows (db w) (db (snd (appendEvent ?inp (updateRunStatus (sr_workflowRunId sr) FAILED w))))"
    by (rule update_append_grows) simp_all
  with CompletePublishStep enqueueRun_grows [of w "sr_workflowRunId sr"] show ?thesis
    by (simp add: Let_def case_prod_beta split: option.splits)
qed (simp_all add: journalGrows_refl)

lemma resume_ids [simp]:
  "map sr_id (step_runs (db (snd (resume t fr w)))) = map sr_id (step_runs (db w))"
  by (cases t) (simp_all add: Let_def case_prod_beta split: option.splits)

lemma resume_startedTask:
  assumes "startedTask (db w) t"
  shows "list_all (startedTask (db (snd (resume t fr w)))) (fst (resume t fr w))"
proof (cases t)
  case (ExecPublishStart r wid)
  then show ?thesis by (simp add: Let_def case_prod_beta loop_startedTask)
next
  case (StepPublishStarted r sr ty c rest m)
  with assms show ?thesis
    by (simp add: Let_def case_prod_beta finishStep_startedTask)
next
  case (StepSleeping r sr rest m)
  then show ?thesis by (simp add: Let_def case_prod_beta finishStep_startedTask)
next
  case (StepFetching r sr url mth rest m)
  then show ?thesis by (simp add: Let_def case_prod_beta finishStep_startedTask)
next
  case (StepPublishDone r rest m)
  then show ?thesis by (simp add: Let_def case_prod_beta loop_startedTask)
next
  case (CompletePublishStep sr i success)
  then show ?thesis
    by (simp add: Let_def case_prod_beta enqueueRun_startedTask split: option.splits)
qed simp_all

lemma insertStepRuns_events [simp]:
  "events (db (snd (insertStepRuns i ss w))) = events (db w)"
  by (induction i ss w rule: insertStepRuns.induct)
     (simp_all add: Let_def case_prod_beta nanoid_def insertStepRun_def split: sum.splits)

lemma insertStepRuns_nano [simp]:
  "nano (snd (insertStepRuns i ss w)) = nano w"
  by (induction i ss w rule: insertStepRuns.induct)
     (simp_all add: Let_def case_prod_beta nanoid_def split: sum.splits)

lemma insertNewSteps_keeps [simp]:
  "events (db (snd (insertNewSteps i ss w))) = events (db w)"
  "step_runs (db (snd (insertNewSteps i ss w))) = step_runs (db w)"
  by (induction i ss w rule: insertNewSteps.induct)
     (simp_all add: Let_def case_prod_beta nanoid_def insertStep_def split: sum.splits)

lemma insertGivenSteps_keeps [simp]:
  "events (db (snd (insertGivenSteps i ss w))) = events (db w)"
  "step_runs (db (snd (insertGivenSteps i ss w))) = step_runs (db w)"
  by (induction i ss w rule: insertGivenSteps.induct)
     (simp_all add: Let_def case_prod_beta nanoid_def insertStep_def
        split: sum.splits option.splits)

lemma createRun_events [simp]:
  "events (db (snd (createRun i w))) = events (db w)"
  by (simp add: createRun_def Let_def case_prod_beta insertRun_def split: sum.splits option.splits)

lemma createWorkflow_keeps [simp]:
  "events (db (snd (createWorkflow inp w))) = events (db w)"
  "step_runs (db (snd (createWorkflow inp w))) = step_runs (db w)"
  by (simp_all add: createWorkflow_def Let_def case_prod_beta insertWorkflow_def
      split: sum.splits option.splits)

lemma insertStepRuns_ids:
  "set (map sr_id (step_runs (db (snd (insertStepRuns r ss w)))))
     \<subseteq> set (map sr_id (step_runs (db w))) \<union> set (nextIds (nano w) (nano_used w) (length ss))"
proof (induction r ss w rule: insertStepRuns.induct)
  case (1 runId w)
  show ?case by simp
next
  case (2 runId s ss w)
  let ?row = "\<lparr>sr_id = nano w (nano_used w), sr_workflowRunId = runId,
               sr_workflowStepId = ws_id s, sr_status = PENDING, sr_startedAt = None,
               sr_finishedAt = None\<rparr>"
  let ?w1 = "snd (nanoid w)"
  show ?case
  proof (cases "insertStepRun ?row (db ?w1)")
    case (Inl e)
    then show ?thesis by (auto simp: Let_def case_prod_beta)
  next
    case (Inr d)
    then have d: "step_runs d = step_runs (db w) @ [?row]"
      by (auto simp: insertStepRun_def split: if_splits)
    have w1: "nano ?w1 = nano w" "nano_used ?w1 = Suc (nano_used w)" by (simp_all add: nanoid_def)
    from 2 [of "nanoid w" "nano w (nano_used w)" ?w1 d] Inr
    have "set (map sr_id (step_runs (db (snd (insertStepRuns runId ss (?w1\<lparr>db := d\<rparr>))))))
          \<subseteq> set (map sr_id (step_runs d)) \<union> set (nextIds (nano w) (Suc (nano_used w)) (length ss))"
      by (simp add: w1 prod_eq_iff)
    with Inr d show ?thesis by (auto simp: Let_def case_prod_beta)
  qed
qed

lemma insertStepRuns_distinct:
  "distinct (map sr_id (step_runs (db w))) \<Longrightarrow>
   distinct (map sr_id (step_runs (db (snd (insertStepRuns r ss w)))))"
proof (induction r ss w rule: insertStepRuns.induct)
  case (1 runId w)
  then show ?case by simp
next
  case (2 runId s ss w)
  let ?row = "\<lparr>sr_id = nano w (nano_used w), sr_workflowRunId = runId,
               sr_workflowStepId = ws_id s, sr_status = PENDING, sr_startedAt = None,
               sr_finishedAt = None\<rparr>"
  let ?w1 = "snd (nanoid w)"
  show ?case
  proof (cases "insertStepRun ?row (db ?w1)")
    case (Inl e)
    with 2(2) show ?thesis by (simp add: Let_def case_prod_beta)
  next
    case (Inr d)
    then have d: "step_runs d = step_runs (db w) @ [?row]"
      and new: "nano w (nano_used w) \<notin> set (map sr_id (step_runs (db w)))"
      by (auto simp: insertStepRun_def split: if_splits)
    with 2(2) have "distinct (map sr_id (step_runs (db (?w1\<lparr>db := d\<rparr>))))" by simp
    from 2(1) [of "nanoid w" "nano w (nano_used w)" ?w1 d, OF _ _ Inr this] Inr
    show ?thesis by (simp add: Let_def case_prod_beta prod_eq_iff)
  qed
qed

lemma createRun_ids:
  "set (map sr_id (step_runs (db (snd (createRun wid w)))))
     \<subseteq> set (map sr_id (step_runs (db w)))
       \<union> set (nextIds (nano w) (Suc (nano_used w)) (length (listWorkflowSteps wid (db w))))"
proof -
  let ?w2 = "snd (now (snd (nanoid w)))"
  let ?row = "\<lparr>wr_id = nano w (nano_used w), wr_workflowId = wid, wr_status = PENDING,
       wr_createdAt = clock w (clock_used w), wr_startedAt = None, wr_finishedAt = None\<rparr>"
  have w2: "nano ?w2 = nano w" "nano_used ?w2 = Suc (nano_used w)" "db ?w2 = db w"
    by (simp_all add: nanoid_def now_def)
  show ?thesis
  proof (cases "insertRun ?row (db w)")
    case (Inl e)
    then show ?thesis by (simp add: createRun_def Let_def case_prod_beta)
  next
    case (Inr d)
    then have d: "step_runs d = step_runs (db w)" "workflow_steps d = workflow_steps (db w)"
      by (auto simp: insertRun_def split: if_splits)
    then have st: "listWorkflowSteps wid d = listWorkflowSteps wid (db w)"
      by (simp add: listWorkflowSteps_def)
    let ?r = "insertStepRuns (nano w (nano_used w)) (listWorkflowSteps wid (db w)) (?w2\<lparr>db := d\<rparr>)"
    from insertStepRuns_ids [of "nano w (nano_used w)" "listWorkflowSteps wid (db w)" "?w2\<lparr>db := d\<rparr>"]
    have sub: "set (map sr_id (step_runs (db (snd ?r))))
        \<subseteq> set (map sr_id (step_runs (db w)))
          \<union> set (nextIds (nano w) (Suc (nano_used w)) (length (listWorkflowSteps wid (db w))))"
      by (simp add: w2 d)
    show ?thesis
    proof (cases "fst ?r")
      case None
      with Inr st sub show ?thesis
        by (simp add: createRun_def Let_def case_prod_beta)
    next
      case (Some e)
      with Inr st d show ?thesis
        by (simp add: createRun_def Let_def case_prod_beta)
    qed
  qed
qed

lemma createRun_distinct:
  assumes "distinct (map sr_id (step_runs (db w)))"
  shows "distinct (map sr_id (step_runs (db (snd (createRun wid w)))))"
proof -
  let ?w2 = "snd (now (snd (nanoid w)))"
  let ?row = "\<lparr>wr_id = nano w (nano_used w), wr_workflowId = wid, wr_status = PENDING,
       wr_createdAt = clock w (clock_used w), wr_startedAt = None, wr_finishedAt = None\<rparr>"
  have w2: "db ?w2 = db w" by (simp add: nanoid_def now_def)
  show ?thesis
  proof (cases "insertRun ?row (db w)")
    case (Inl e)
    with assms show ?thesis by (simp add: createRun_def Let_def case_prod_beta)
  next
    case (Inr d)
    then have d: "step_runs d = step_runs (db w)"
      by (auto simp: insertRun_def split: if_splits)
    let ?r = "insertStepRuns (nano w (nano_used w)) (listWorkflowSteps wid d) (?w2\<lparr>db := d\<rparr>)"
    have "distinct (map sr_id (step_runs (db (snd ?r))))"
      by (rule insertStepRuns_distinct) (simp add: d assms)
    with Inr d assms show ?thesis
      by (cases "fst ?r") (simp_all add: createRun_def Let_def case_prod_beta)
  qed
qed

lemma startRun_step_runs:
  "step_runs (db (snd (startRun wid w))) = step_runs (db (snd (createRun wid w)))"
  by (simp add: startRun_def case_prod_beta split: prod.splits sum.splits option.splits)

lemma startRun_grows: "journalGrows (db w) (db (snd (startRun i w)))"
proof (cases "createRun i w")
  case (Pair res w1)
  then have e1: "events (db w1) = events (db w)"
    using createRun_events [of i w] by simp
  show ?thesis
  proof (cases res)
    case (Inl e)
    with Pair e1 show ?thesis by (simp add: startRun_def journalGrows_refl)
  next
    case (Inr ro)
    show ?thesis
    proof (cases ro)
      case None
      with Pair Inr e1 show ?thesis by (simp add: startRun_def journalGrows_refl)
    next
      case (Some run)
      let ?inp = "\<lparr>in_workflowRunId = wr_id run, in_stepRunId = None,
                  in_type = RUN_STARTED, in_message = ''Run enqueued''\<rparr>"
      let ?a = "appendEvent ?inp w1"
      have g1: "journalGrows (db w) (db (snd ?a))"
        by (rule update_append_grows) (simp_all add: e1)
      show ?thesis
      proof (cases "fst ?a")
        case (Some e)
        with Pair Inr \<open>ro = Some run\<close> have "snd (startRun i w) = snd ?a"
          by (simp add: startRun_def case_prod_beta split: prod.splits)
        with g1 show ?thesis by simp
      next
        case None
        with Pair Inr \<open>ro = Some run\<close>
        have "snd (startRun i w) = snd (enqueueRun (wr_id run) (snd ?a))"
          by (simp add: startRun_def case_prod_beta split: prod.splits)
        with journalGrows_trans [OF g1 enqueueRun_grows [of "snd ?a" "wr_id run"]]
        show ?thesis by simp
      qed
    qed
  qed
qed

lemma startRun_startedTask: "list_all (startedTask d) (fst (startRun i w))"
  by (simp add: startRun_def case_prod_beta enqueueRun_startedTask
      split: prod.splits sum.splits option.splits)

lemma completeManualStep_ids [simp]:
  "map sr_id (step_runs (db (snd (completeManualStep i success w)))) = map sr_id (step_runs (db w))"
  by (simp add: completeManualStep_def Let_def case_prod_beta split: option.splits)

lemma completeManualStep_prefix:
  "prefix (events (db w)) (events (db (snd (completeManualStep i success w))))"
proof -
  have "prefix (events (db (updateStepRunStatus i s w))) (events (db (snd (appendEvent inp (updateStepRunStatus i s w)))))"
    for s inp
    by (rule appendEvent_prefix)
  then show ?thesis
    by (simp add: completeManualStep_def Let_def case_prod_beta split: option.splits)
qed

lemma completeManualStep_startedTask: "startedTask d (fst (completeManualStep i success w))"
  by (simp add: completeManualStep_def Let_def case_prod_beta split: option.splits)

lemma updateWorkflow_cascade:
  "(step_runs (db (snd (updateWorkflow inp w))) = step_runs (db w)
      \<and> events (db (snd (updateWorkflow inp w))) = events (db w))
   \<or> (\<exists>P. step_runs (db (snd (updateWorkflow inp w))) = filter P (step_runs (db w))
        \<and> events (db (snd (updateWorkflow inp w)))
            = filter (\<lambda>e. case ev_stepRunId e of None \<Rightarrow> True
                 | Some s \<Rightarrow> s \<notin> set (map sr_id (filter (\<lambda>r. \<not> P r) (step_runs (db w)))))
                (events (db w)))"
proof (cases "getWorkflow (ui_id inp) (db w)")
  case None
  then show ?thesis by (simp add: updateWorkflow_def)
next
  case (Some existing)
  let ?d1 = "updateWf (ui_id inp) (case ui_name inp of Some n \<Rightarrow> n | None \<Rightarrow> w_name existing)
                      (coalesce (ui_description inp) (w_description existing)) (db w)"
  let ?d2 = "deleteSteps (ui_id inp) ?d1"
  let ?r = "insertGivenSteps (ui_id inp) (ui_steps inp) (w\<lparr>db := ?d2\<rparr>)"
  let ?gone = "set (map ws_id (filter (\<lambda>s. ws_workflowId s = ui_id inp) (workflow_steps (db w))))"
  have d1: "step_runs ?d1 = step_runs (db w)" "events ?d1 = events (db w)"
    "workflow_steps ?d1 = workflow_steps (db w)"
    by (simp_all add: updateWf_def)
  have d2: "step_runs ?d2 = filter (\<lambda>r. sr_workflowStepId r \<notin> ?gone) (step_runs (db w))"
    "events ?d2 = filter (\<lambda>e. case ev_stepRunId e of None \<Rightarrow> True
                 | Some s \<Rightarrow> s \<notin> set (map sr_id (filter (\<lambda>r. \<not> sr_workflowStepId r \<notin> ?gone)
                      (step_runs (db w))))) (events (db w))"
    by (simp_all add: deleteSteps_def Let_def d1 cong: option.case_cong)
  show ?thesis
  proof (cases "fst ?r")
    case (Some e)
    with \<open>getWorkflow (ui_id inp) (db w) = Some existing\<close> show ?thesis
      by (simp add: updateWorkflow_def Let_def case_prod_beta)
  next
    case None
    with \<open>getWorkflow (ui_id inp) (db w) = Some existing\<close>
    have "snd (updateWorkflow inp w) = snd ?r"
      by (simp add: updateWorkflow_def Let_def case_prod_beta)
    then have "step_runs (db (snd (updateWorkflow inp w))) = step_runs ?d2"
      "events (db (snd (updateWorkflow inp w))) = events ?d2"
      by simp_all
    with d2 show ?thesis by (intro disjI2 exI [of _ "\<lambda>r. sr_workflowStepId r \<notin> ?gone"]) simp
  qed
qed

lemma cascade_startedTask:
  assumes dist: "distinct (map sr_id (step_runs d))"
    and st: "startedTask d t"
    and rows: "step_runs d' = filter P (step_runs d)"
    and evs: "events d' = filter (\<lambda>e. case ev_stepRunId e of None \<Rightarrow> True
                 | Some s \<Rightarrow> s \<notin> set (map sr_id (filter (\<lambda>r. \<not> P r) (step_runs d))))
                (events d)"
  shows "startedTask d' t"
proof (cases "heldStepRun t")
  case None
  then show ?thesis by (simp add: startedTask_def)
next
  case (Some p)
  obtain r i where p: "p = (r, i)" by (cases p)
  from st Some p
  have c: "hasStarted r i d \<or> i \<notin> set (map sr_id (step_runs d))" by (simp add: startedTask_def)
  have "hasStarted r i d' \<or> i \<notin> set (map sr_id (step_runs d'))"
  proof (cases "i \<in> set (map sr_id (step_runs d'))")
    case False
    then show ?thesis by simp
  next
    case True
    then obtain x where x: "x \<in> set (step_runs d)" "P x" "sr_id x = i"
      by (auto simp: rows)
    with c have h: "hasStarted r i d" by force
    have keep: "i \<notin> set (map sr_id (filter (\<lambda>r. \<not> P r) (step_runs d)))"
    proof
      assume "i \<in> set (map sr_id (filter (\<lambda>r. \<not> P r) (step_runs d)))"
      then obtain y where y: "y \<in> set (step_runs d)" "\<not> P y" "sr_id y = i" by auto
      from dist x(1) y(1) x(3) y(3) have "x = y"
        by (simp add: distinct_map inj_on_def)
      with x(2) y(2) show False by simp
    qed
    from h obtain e where "e \<in> set (events d)" "isStartOf r (Some i) e"
      by (auto simp: hasStarted_def list_ex_iff)
    with keep have "e \<in> set (events d')" by (simp add: evs isStartOf_def)
    with \<open>isStartOf r (Some i) e\<close> show ?thesis
      by (auto simp: hasStarted_def list_ex_iff)
  qed
  with Some p show ?thesis by (simp add: startedTask_def)
qed

lemma updateWorkflow_startedTask:
  assumes "distinct (map sr_id (step_runs (db w)))" "startedTask (db w) t"
  shows "startedTask (db (snd (updateWorkflow inp w))) t"
  using updateWorkflow_cascade [of inp w]
proof (elim disjE exE conjE)
  assume "step_runs (db (snd (updateWorkflow inp w))) = step_runs (db w)"
    "events (db (snd (updateWorkflow inp w))) = events (db w)"
  with assms(2) show ?thesis
    by (intro startedTask_kept [OF assms(2)]) simp_all
next
  fix P
  assume "step_runs (db (snd (updateWorkflow inp w))) = filter P (step_runs (db w))"
    "events (db (snd (updateWorkflow inp w)))
            = filter (\<lambda>e. case ev_stepRunId e of None \<Rightarrow> True
                 | Some s \<Rightarrow> s \<notin> set (map sr_id (filter (\<lambda>r. \<not> P r) (step_runs (db w)))))
                (events (db w))"
  then show ?thesis by (rule cascade_startedTask [OF assms])
qed

lemma updateWorkflow_distinct:
  assumes "distinct (map sr_id (step_runs (db w)))"
  shows "distinct (map sr_id (step_runs (db (snd (updateWorkflow inp w)))))"
  using updateWorkflow_cascade [of inp w] assms
  by (auto simp: distinct_map_filter)

lemma heldIds_mem:
  "t \<in> set ts \<Longrightarrow> heldStepRun t = Some (r, i) \<Longrightarrow> i \<in> set (heldIds ts)"
  by (induction ts) (auto simp: heldIds_def List.map_filter_simps split: option.splits)

lemma passesStarted_step:
  assumes tsk: "list_all (startedTask (db w)) ts"
    and ev: "prefix (events (db w)) (events (db w'))"
    and ids: "\<And>i. i \<in> set (heldIds ts) \<Longrightarrow> i \<in> set (map sr_id (step_runs (db w')))
                \<Longrightarrow> i \<in> set (map sr_id (step_runs (db w)))"
    and dist: "distinct (map sr_id (step_runs (db w')))"
    and new: "list_all (startedTask (db w')) new"
    and ts': "set ts' \<subseteq> set ts \<union> set new"
  shows "passesStarted (w', ts')"
proof -
  have "startedTask (db w') t" if t: "t \<in> set ts" for t
  proof (rule startedTask_kept [OF _ ev])
    from tsk t show "startedTask (db w) t" by (simp add: list_all_iff)
  next
    fix r i
    assume "heldStepRun t = Some (r, i)" "i \<in> set (map sr_id (step_runs (db w')))"
    with heldIds_mem [OF t] ids show "i \<in> set (map sr_id (step_runs (db w)))" by blast
  qed
  with new ts' have "list_all (startedTask (db w')) ts'"
    by (auto simp: list_all_iff)
  with dist show ?thesis by (simp add: passesStarted_def)
qed

lemma act_keeps_passesStarted:
  assumes inv: "passesStarted s" and nr: "noReuse a s"
  shows "passesStarted (act a s)"
proof -
  obtain w ts where s: "s = (w, ts)" by (cases s)
  from inv s have tsk: "list_all (startedTask (db w)) ts"
    and dist: "distinct (map sr_id (step_runs (db w)))"
    by (simp_all add: passesStarted_def)
  note step = passesStarted_step [OF tsk]
  show ?thesis
  proof (cases a)
    case (Resume k fr)
    show ?thesis
    proof (cases "k < length ts")
      case False
      with Resume s inv show ?thesis by simp
    next
      case True
      let ?t = "ts ! k"
      have res: "act a s = (snd (resume ?t fr w), take k ts @ fst (resume ?t fr w) @ drop (Suc k) ts)"
        using Resume s True by (simp add: case_prod_beta)
      from tsk True have t: "startedTask (db w) ?t" by (simp add: list_all_length)
      have sub: "set (take k ts @ fst (resume ?t fr w) @ drop (Suc k) ts)
                 \<subseteq> set ts \<union> set (fst (resume ?t fr w))"
        using set_take_subset [of k ts] set_drop_subset [of "Suc k" ts] by auto
      have "passesStarted (snd (resume ?t fr w), take k ts @ fst (resume ?t fr w) @ drop (Suc k) ts)"
      proof (rule step [OF journalGrows_prefix [OF resume_grows [OF t]] _ _
              resume_startedTask [OF t] sub])
        show "distinct (map sr_id (step_runs (db (snd (resume ?t fr w)))))"
          using dist by (simp only: resume_ids)
      next
        fix i
        assume "i \<in> set (map sr_id (step_runs (db (snd (resume ?t fr w)))))"
        then show "i \<in> set (map sr_id (step_runs (db w)))" by (simp only: resume_ids)
      qed
      then show ?thesis by (simp add: res)
    qed
  next
    case (CallEnqueueRun r)
    have res: "act a s = (snd (enqueueRun r w), ts @ fst (enqueueRun r w))"
      using CallEnqueueRun s by (simp add: case_prod_beta)
    have "passesStarted (snd (enqueueRun r w), ts @ fst (enqueueRun r w))"
      by (rule step [OF journalGrows_prefix [OF enqueueRun_grows] _ _ enqueueRun_startedTask [of _ r w]])
         (simp_all add: dist)
    then show ?thesis by (simp add: res)
  next
    case (CallCompleteManualStep i success)
    have res: "act a s = (snd (completeManualStep i success w), ts @ [fst (completeManualStep i success w)])"
      using CallCompleteManualStep s by (simp add: case_prod_beta)
    have new: "list_all (startedTask (db (snd (completeManualStep i success w))))
                 [fst (completeManualStep i success w)]"
      by (simp add: completeManualStep_startedTask)
    have "passesStarted (snd (completeManualStep i success w), ts @ [fst (completeManualStep i success w)])"
      by (rule step [OF completeManualStep_prefix _ _ new]) (simp_all add: dist)
    then show ?thesis by (simp add: res)
  next
    case (CallStartRun wid)
    have res: "act a s = (snd (startRun wid w), ts @ fst (startRun wid w))"
      using CallStartRun s by (simp add: case_prod_beta)
    from nr CallStartRun s
    have fresh: "\<And>i. i \<in> set (nextIds (nano w) (Suc (nano_used w))
                      (length (listWorkflowSteps wid (db w)))) \<Longrightarrow> i \<notin> set (heldIds ts)"
      by (simp add: list_all_iff)
    have "passesStarted (snd (startRun wid w), ts @ fst (startRun wid w))"
    proof (rule step [OF journalGrows_prefix [OF startRun_grows] _ _ startRun_startedTask [of _ wid w]])
      show "distinct (map sr_id (step_runs (db (snd (startRun wid w)))))"
        using createRun_distinct [OF dist, of wid] by (simp add: startRun_step_runs)
    next
      fix i
      assume h: "i \<in> set (heldIds ts)"
        and "i \<in> set (map sr_id (step_runs (db (snd (startRun wid w)))))"
      then have "i \<in> set (map sr_id (step_runs (db (snd (createRun wid w)))))"
        by (simp add: startRun_step_runs)
      with createRun_ids [of wid w] fresh h
      show "i \<in> set (map sr_id (step_runs (db w)))" by blast
    qed simp
    then show ?thesis by (simp add: res)
  next
    case (CallCreateWorkflow inp)
    have new: "list_all (startedTask (db (snd (createWorkflow inp w)))) []" by simp
    have "passesStarted (snd (createWorkflow inp w), ts)"
      by (rule step [OF _ _ _ new]) (simp_all add: dist)
    with CallCreateWorkflow s show ?thesis by simp
  next
    case (CallUpdateWorkflow inp)
    from tsk have "list_all (startedTask (db (snd (updateWorkflow inp w)))) ts"
      by (auto simp: list_all_iff intro: updateWorkflow_startedTask [OF dist])
    with updateWorkflow_distinct [OF dist, of inp]
    have "passesStarted (snd (updateWorkflow inp w), ts)" by (simp add: passesStarted_def)
    with CallUpdateWorkflow s show ?thesis by simp
  qed
qed

lemma runActions_keeps_passesStarted:
  "passesStarted s \<Longrightarrow> reuseFree acts s \<Longrightarrow> passesStarted (runActions acts s)"
proof (induction acts arbitrary: s)
  case Nil
  then show ?case by (simp add: runActions_def)
next
  case (Cons a acts)
  from Cons.prems have "passesStarted (act a s)" "reuseFree acts (act a s)"
    by (simp_all add: act_keeps_passesStarted)
  from Cons.IH [OF this] show ?case by (simp add: runActions_def)
qed

lemma resume_action_grows:
  assumes "passesStarted s"
  shows "journalGrows (db (fst s)) (db (fst (act (Resume k fr) s)))"
proof -
  obtain w ts where s: "s = (w, ts)" by (cases s)
  from assms s have tsk: "list_all (startedTask (db w)) ts" by (simp add: passesStarted_def)
  show ?thesis
  proof (cases "k < length ts")
    case False
    with s show ?thesis by (simp add: journalGrows_refl)
  next
    case True
    with tsk have "startedTask (db w) (ts ! k)" by (simp add: list_all_length)
    from resume_grows [OF this, of fr] True s show ?thesis by (simp add: case_prod_beta)
  qed
qed

lemma runNonManualStep_started:
  assumes "sr_id sr \<in> set (map sr_id (step_runs (db w)))"
    and "r \<in> set (map wr_id (workflow_runs (db w)))"
    and "nano w (nano_used w) \<notin> set (map ev_id (events (db w)))"
  shows "fst (runNonManualStep r sr ty c rest m w) = StepPublishStarted r sr ty c rest m"
    and "events (db (snd (runNonManualStep r sr ty c rest m w))) = events (db w) @
           [\<lparr>ev_id = nano w (nano_used w), ev_workflowRunId = r, ev_stepRunId = Some (sr_id sr),
             ev_type = STEP_STARTED, ev_message = ''Step started'',
             ev_createdAt = clock w (Suc (clock_used w))\<rparr>]"
proof -
  let ?inp = "\<lparr>in_workflowRunId = r, in_stepRunId = Some (sr_id sr), in_type = STEP_STARTED,
               in_message = ''Step started''\<rparr>"
  let ?u = "updateStepRunStatus (sr_id sr) RUNNING w"
  have acc: "accepts (db ?u) (newEvent ?inp ?u)"
    using assms by (simp add: accepts_newEvent)
  then have f: "fst (appendEvent ?inp ?u) = None" by (simp add: appendEvent_fst)
  then show "fst (runNonManualStep r sr ty c rest m w) = StepPublishStarted r sr ty c rest m"
    by (simp add: runNonManualStep_def Let_def case_prod_beta)
  have "snd (runNonManualStep r sr ty c rest m w) = snd (appendEvent ?inp ?u)"
    by (simp add: runNonManualStep_def Let_def case_prod_beta split: option.splits)
  with acc show "events (db (snd (runNonManualStep r sr ty c rest m w))) = events (db w) @
           [\<lparr>ev_id = nano w (nano_used w), ev_workflowRunId = r, ev_stepRunId = Some (sr_id sr),
             ev_type = STEP_STARTED, ev_message = ''Step started'',
             ev_createdAt = clock w (Suc (clock_used w))\<rparr>]"
    by (simp add: appendEvent_events newEvent_def)
qed

lemma finishStep_succeeded:
  assumes "sr_id sr \<in> set (map sr_id (step_runs (db w)))"
    and "r \<in> set (map wr_id (workflow_runs (db w)))"
    and "nano w (nano_used w) \<notin> set (map ev_id (events (db w)))"
  shows "fst (finishStep r sr rest m None w) = StepPublishDone r rest m"
    and "events (db (snd (finishStep r sr rest m None w))) = events (db w) @
           [\<lparr>ev_id = nano w (nano_used w), ev_workflowRunId = r, ev_stepRunId = Some (sr_id sr),
             ev_type = STEP_SUCCEEDED, ev_message = ''Step succeeded'',
             ev_createdAt = clock w (Suc (clock_used w))\<rparr>]"
proof -
  let ?inp = "\<lparr>in_workflowRunId = r, in_stepRunId = Some (sr_id sr), in_type = STEP_SUCCEEDED,
               in_message = ''Step succeeded''\<rparr>"
  let ?u = "updateStepRunStatus (sr_id sr) SUCCEEDED w"
  have acc: "accepts (db ?u) (newEvent ?inp ?u)"
    using assms by (simp add: accepts_newEvent)
  then have f: "fst (stepSucceeded r sr w) = None"
    by (simp add: stepSucceeded_def appendEvent_fst)
  then show "fst (finishStep r sr rest m None w) = StepPublishDone r rest m"
    by (simp add: finishStep_def Let_def case_prod_beta)
  from f have "snd (finishStep r sr rest m None w) = snd (appendEvent ?inp ?u)"
    by (simp add: finishStep_def stepSucceeded_def Let_def case_prod_beta)
  with acc show "events (db (snd (finishStep r sr rest m None w))) = events (db w) @
           [\<lparr>ev_id = nano w (nano_used w), ev_workflowRunId = r, ev_stepRunId = Some (sr_id sr),
             ev_type = STEP_SUCCEEDED, ev_message = ''Step succeeded'',
             ev_createdAt = clock w (Suc (clock_used w))\<rparr>]"
    by (simp add: appendEvent_events newEvent_def)
qed

lemma completeManualStep_order:
  assumes get: "getStepRunById i (db w) = Some sr"
    and open_: "\<not> isTerminal (sr_status sr)"
    and run: "sr_workflowRunId sr \<in> set (map wr_id (workflow_runs (db w)))"
    and fresh: "nano w (nano_used w) \<notin> set (map ev_id (events (db w)))"
  shows "journalGrows (db w) (db (snd (completeManualStep i success w)))
         \<longleftrightarrow> hasStarted (sr_workflowRunId sr) i (db w)"
proof -
  let ?inp = "\<lparr>in_workflowRunId = sr_workflowRunId sr, in_stepRunId = Some i,
               in_type = (if success then STEP_SUCCEEDED else STEP_FAILED),
               in_message = (if success then ''Manual step completed''
                             else ''Manual step failed'')\<rparr>"
  let ?u = "updateStepRunStatus i (if success then SUCCEEDED else FAILED) w"
  have snd_eq: "snd (completeManualStep i success w) = snd (appendEvent ?inp ?u)"
    using get open_
    by (simp add: completeManualStep_def isTerminal_def Let_def case_prod_beta split: option.splits)
  have acc: "accepts (db ?u) (newEvent ?inp ?u)"
    using getStepRunById_mem [OF get] run fresh by (simp add: accepts_newEvent)
  have ev: "events (db (snd (completeManualStep i success w))) = events (db w) @ [newEvent ?inp ?u]"
    using acc by (simp add: snd_eq appendEvent_events)
  have e: "isStepEnd (newEvent ?inp ?u)" "ev_workflowRunId (newEvent ?inp ?u) = sr_workflowRunId sr"
    "ev_stepRunId (newEvent ?inp ?u) = Some i"
    by (simp_all add: newEvent_def isStepEnd_def)
  show ?thesis
    by (simp add: journalGrows_def ev e hasStarted_def)
qed

lemma reuseFree_without_startRun:
  "list_all (\<lambda>a. \<forall>wid. a \<noteq> CallStartRun wid) acts \<Longrightarrow> reuseFree acts s"
proof (induction acts arbitrary: s)
  case Nil
  show ?case by simp
next
  case (Cons a acts s)
  then have "noReuse a s" by (cases a) simp_all
  with Cons show ?case by simp
qed

text \<open>
  The proviso on generated ids is needed. In the world exReusing the sleeping pass of run
  ''r'' is executing StepRun ''a''. updateWorkflow replaces the steps of the workflow, and
  the cascade deletes StepRun ''a'' together with its STEP_STARTED. startRun then creates
  the StepRuns of a new run, and the generator names one of them ''a''. Resumed, the pass
  appends STEP_SUCCEEDED for ''a'' in run ''r'', the journal accepts it, and no
  STEP_STARTED of ''a'' precedes it.
\<close>

lemma reused_id_breaks_order:
  "passesStarted (exReusing, [exSleepingTask])
   \<and> \<not> reuseFree [CallUpdateWorkflow exReordered, CallStartRun ''wf''] (exReusing, [exSleepingTask])
   \<and> map (\<lambda>e. (ev_id e, ev_workflowRunId e, ev_stepRunId e, ev_type e))
        (events (db (fst (act (Resume 0 (Rejected []))
           (runActions [CallUpdateWorkflow exReordered, CallStartRun ''wf'']
              (exReusing, [exSleepingTask]))))))
       = [(''e1'', ''r'', None, RUN_STARTED), (''e2'', ''r'', None, RUN_STARTED),
          (''e6'', ''r2'', None, RUN_STARTED), (''e7'', ''r2'', None, RUN_STARTED),
          (''e8'', ''r'', Some ''a'', STEP_SUCCEEDED)]
   \<and> \<not> journalGrows
         (db (fst (runActions [CallUpdateWorkflow exReordered, CallStartRun ''wf'']
                     (exReusing, [exSleepingTask]))))
         (db (fst (act (Resume 0 (Rejected []))
                     (runActions [CallUpdateWorkflow exReordered, CallStartRun ''wf'']
                        (exReusing, [exSleepingTask])))))"
  by code_simp

text \<open>
  C3 (as amended). Every STEP_SUCCEEDED or STEP_FAILED event that a scheduling pass appends
  is preceded in the journal by a STEP_STARTED event of the same StepRun in the same run.
  This holds in every state the process reaches, whatever calls and resumptions came
  before, updateWorkflow and manual completions of steps that no pass has reached
  included, under one proviso: startRun never gives a new StepRun the id of a StepRun that
  a suspended pass is executing. Stated as an invariant (passesStarted): StepRun ids are
  unique, and each pass suspended inside runNonManualStep has the STEP_STARTED of its
  StepRun in the journal, unless updateWorkflow's cascade has deleted the StepRun, after
  which the foreign key of the journal refuses the STEP_SUCCEEDED and the STEP_FAILED of
  the pass. The invariant holds when no task is suspended; every action keeps it; and in
  a state where it holds, every resumption of a task, every enqueueRun and every startRun
  extends the journal by events that keep the order. A pass enters runNonManualStep by
  appending STEP_STARTED for the StepRun, and when the handler has completed it appends
  STEP_SUCCEEDED for the same StepRun and run. completeManualStep does not look for a
  STEP_STARTED: for an existing StepRun that is PENDING or RUNNING it appends its event,
  and that event is preceded by a matching STEP_STARTED exactly when one is already in the
  journal.
\<close>

theorem step_events_follow_their_start:
  "(passesStarted s \<and> reuseFree acts s \<longrightarrow>
      passesStarted (runActions acts s)
      \<and> journalGrows (db (fst (runActions acts s)))
          (db (fst (act (Resume k fr) (runActions acts s))))
      \<and> journalGrows (db (fst (runActions acts s)))
          (db (fst (act (CallEnqueueRun runId) (runActions acts s))))
      \<and> journalGrows (db (fst (runActions acts s)))
          (db (fst (act (CallStartRun workflowId) (runActions acts s)))))
   \<and> (distinct (map sr_id (step_runs (db w))) \<longrightarrow> passesStarted (w, []))
   \<and> (sr_id sr \<in> set (map sr_id (step_runs (db w)))
        \<and> r \<in> set (map wr_id (workflow_runs (db w)))
        \<and> nano w (nano_used w) \<notin> set (map ev_id (events (db w))) \<longrightarrow>
        fst (runNonManualStep r sr ty c rest m w) = StepPublishStarted r sr ty c rest m
        \<and> events (db (snd (runNonManualStep r sr ty c rest m w))) = events (db w) @
            [\<lparr>ev_id = nano w (nano_used w), ev_workflowRunId = r, ev_stepRunId = Some (sr_id sr),
              ev_type = STEP_STARTED, ev_message = ''Step started'',
              ev_createdAt = clock w (Suc (clock_used w))\<rparr>]
        \<and> fst (resume (StepSleeping r sr rest m) fr w) = [StepPublishDone r rest m]
        \<and> events (db (snd (resume (StepSleeping r sr rest m) fr w))) = events (db w) @
            [\<lparr>ev_id = nano w (nano_used w), ev_workflowRunId = r, ev_stepRunId = Some (sr_id sr),
              ev_type = STEP_SUCCEEDED, ev_message = ''Step succeeded'',
              ev_createdAt = clock w (Suc (clock_used w))\<rparr>])
   \<and> (getStepRunById i (db w) = Some sr \<and> \<not> isTerminal (sr_status sr)
        \<and> sr_workflowRunId sr \<in> set (map wr_id (workflow_runs (db w)))
        \<and> nano w (nano_used w) \<notin> set (map ev_id (events (db w))) \<longrightarrow>
        (journalGrows (db w) (db (snd (completeManualStep i success w)))
         \<longleftrightarrow> hasStarted (sr_workflowRunId sr) i (db w)))"
proof (intro conjI impI)
  assume a: "passesStarted s \<and> reuseFree acts s"
  then show inv: "passesStarted (runActions acts s)"
    by (simp add: runActions_keeps_passesStarted)
  then show "journalGrows (db (fst (runActions acts s)))
          (db (fst (act (Resume k fr) (runActions acts s))))"
    by (rule resume_action_grows)
  show "journalGrows (db (fst (runActions acts s)))
          (db (fst (act (CallEnqueueRun runId) (runActions acts s))))"
    using enqueueRun_grows [of "fst (runActions acts s)" runId]
    by (cases "runActions acts s") (simp add: case_prod_beta)
  show "journalGrows (db (fst (runActions acts s)))
          (db (fst (act (CallStartRun workflowId) (runActions acts s))))"
    using startRun_grows [of "fst (runActions acts s)" workflowId]
    by (cases "runActions acts s") (simp add: case_prod_beta)
next
  assume "distinct (map sr_id (step_runs (db w)))"
  then show "passesStarted (w, [])" by (simp add: passesStarted_def)
next
  assume a: "sr_id sr \<in> set (map sr_id (step_runs (db w)))
        \<and> r \<in> set (map wr_id (workflow_runs (db w)))
        \<and> nano w (nano_used w) \<notin> set (map ev_id (events (db w)))"
  then have a1: "sr_id sr \<in> set (map sr_id (step_runs (db w)))"
    and a2: "r \<in> set (map wr_id (workflow_runs (db w)))"
    and a3: "nano w (nano_used w) \<notin> set (map ev_id (events (db w)))"
    by blast+
  show "fst (runNonManualStep r sr ty c rest m w) = StepPublishStarted r sr ty c rest m"
    by (rule runNonManualStep_started(1) [OF a1 a2 a3])
  show "events (db (snd (runNonManualStep r sr ty c rest m w))) = events (db w) @
            [\<lparr>ev_id = nano w (nano_used w), ev_workflowRunId = r, ev_stepRunId = Some (sr_id sr),
              ev_type = STEP_STARTED, ev_message = ''Step started'',
              ev_createdAt = clock w (Suc (clock_used w))\<rparr>]"
    by (rule runNonManualStep_started(2) [OF a1 a2 a3])
  show "fst (resume (StepSleeping r sr rest m) fr w) = [StepPublishDone r rest m]"
    using finishStep_succeeded(1) [OF a1 a2 a3, of rest m] by (simp add: case_prod_beta)
  show "events (db (snd (resume (StepSleeping r sr rest m) fr w))) = events (db w) @
            [\<lparr>ev_id = nano w (nano_used w), ev_workflowRunId = r, ev_stepRunId = Some (sr_id sr),
              ev_type = STEP_SUCCEEDED, ev_message = ''Step succeeded'',
              ev_createdAt = clock w (Suc (clock_used w))\<rparr>]"
    using finishStep_succeeded(2) [OF a1 a2 a3, of rest m] by (simp add: case_prod_beta)
next
  assume "getStepRunById i (db w) = Some sr \<and> \<not> isTerminal (sr_status sr)
        \<and> sr_workflowRunId sr \<in> set (map wr_id (workflow_runs (db w)))
        \<and> nano w (nano_used w) \<notin> set (map ev_id (events (db w)))"
  then show "journalGrows (db w) (db (snd (completeManualStep i success w)))
         \<longleftrightarrow> hasStarted (sr_workflowRunId sr) i (db w)"
    by (intro completeManualStep_order) blast+
qed

theorem unstarted_step_completed_counterexample:
  "stepCausal (db exAwaiting)
   \<and> map_option sr_status (getStepRunById ''b'' (db exAwaiting)) = Some PENDING
   \<and> \<not> hasStarted ''r'' ''b'' (db exAwaiting)
   \<and> map (\<lambda>e. (ev_type e, ev_stepRunId e))
        (drop 3 (events (db (snd (completeManualStep ''b'' True exAwaiting)))))
       = [(STEP_SUCCEEDED, Some ''b'')]
   \<and> \<not> stepCausal (db (snd (completeManualStep ''b'' True exAwaiting)))"
  by (simp add: ex_defs store_defs completeManualStep_def stepCausal_def hasStarted_def
      isStepEnd_def isStartOf_def Let_def)

theorem step_events_follow_their_start_witness:
  "passesStarted (exSleeping, [exSleepingTask])
   \<and> reuseFree [CallStartRun ''wf'', CallCompleteManualStep ''b'' True, CallUpdateWorkflow exReordered]
        (exSleeping, [exSleepingTask])
   \<and> passesStarted
        (runActions [CallStartRun ''wf'', CallCompleteManualStep ''b'' True, CallUpdateWorkflow exReordered]
           (exSleeping, [exSleepingTask]))
   \<and> journalGrows
        (db (fst (runActions [CallStartRun ''wf'', CallCompleteManualStep ''b'' True,
                     CallUpdateWorkflow exReordered] (exSleeping, [exSleepingTask]))))
        (db (fst (act (Resume 0 (Rejected []))
           (runActions [CallStartRun ''wf'', CallCompleteManualStep ''b'' True,
                     CallUpdateWorkflow exReordered] (exSleeping, [exSleepingTask])))))
   \<and> reuseFree [CallCompleteManualStep ''b'' True] (exSleeping, [exSleepingTask])
   \<and> \<not> stepCausal (db (fst (runActions [CallCompleteManualStep ''b'' True]
                               (exSleeping, [exSleepingTask]))))
   \<and> journalGrows
        (db (fst (runActions [CallCompleteManualStep ''b'' True] (exSleeping, [exSleepingTask]))))
        (db (fst (act (Resume 0 (Rejected []))
           (runActions [CallCompleteManualStep ''b'' True] (exSleeping, [exSleepingTask])))))
   \<and> map (\<lambda>e. (ev_type e, ev_stepRunId e))
        (events (db (fst (act (Resume 0 (Rejected []))
           (runActions [CallCompleteManualStep ''b'' True] (exSleeping, [exSleepingTask]))))))
       = [(RUN_STARTED, None), (RUN_STARTED, None), (STEP_STARTED, Some ''a''),
          (STEP_SUCCEEDED, Some ''b''), (STEP_SUCCEEDED, Some ''a'')]
   \<and> distinct (map sr_id (step_runs (db exAwaiting)))
   \<and> passesStarted (exAwaiting, [])
   \<and> ''a'' \<in> set (map sr_id (step_runs (db exSleeping)))
   \<and> ''r'' \<in> set (map wr_id (workflow_runs (db exSleeping)))
   \<and> nano exSleeping (nano_used exSleeping) \<notin> set (map ev_id (events (db exSleeping)))
   \<and> fst (runNonManualStep ''r'' (exStepRun ''a'' ''s1'' PENDING None) DELAY (JObj [])
            [exAutoSteps ! 1] exStepRunMap exSleeping)
       = StepPublishStarted ''r'' (exStepRun ''a'' ''s1'' PENDING None) DELAY (JObj [])
            [exAutoSteps ! 1] exStepRunMap
   \<and> map (\<lambda>e. (ev_type e, ev_stepRunId e))
        (events (db (snd (runNonManualStep ''r'' (exStepRun ''a'' ''s1'' PENDING None) DELAY (JObj [])
            [exAutoSteps ! 1] exStepRunMap exSleeping))))
       = [(RUN_STARTED, None), (RUN_STARTED, None), (STEP_STARTED, Some ''a''),
          (STEP_STARTED, Some ''a'')]
   \<and> fst (resume (StepSleeping ''r'' (exStepRun ''a'' ''s1'' PENDING None) [exAutoSteps ! 1]
                   exStepRunMap) (Rejected []) exSleeping)
       = [StepPublishDone ''r'' [exAutoSteps ! 1] exStepRunMap]
   \<and> map (\<lambda>e. (ev_type e, ev_stepRunId e))
        (events (db (snd (resume (StepSleeping ''r'' (exStepRun ''a'' ''s1'' PENDING None)
            [exAutoSteps ! 1] exStepRunMap) (Rejected []) exSleeping))))
       = [(RUN_STARTED, None), (RUN_STARTED, None), (STEP_STARTED, Some ''a''),
          (STEP_SUCCEEDED, Some ''a'')]
   \<and> getStepRunById ''b'' (db exAwaiting) = Some (exStepRun ''b'' ''s2'' PENDING None)
   \<and> \<not> isTerminal PENDING
   \<and> ''r'' \<in> set (map wr_id (workflow_runs (db exAwaiting)))
   \<and> nano exAwaiting (nano_used exAwaiting) \<notin> set (map ev_id (events (db exAwaiting)))
   \<and> \<not> hasStarted ''r'' ''b'' (db exAwaiting)
   \<and> \<not> journalGrows (db exAwaiting) (db (snd (completeManualStep ''b'' True exAwaiting)))
   \<and> getStepRunById ''a'' (db exAwaiting) = Some (exStepRun ''a'' ''s1'' PENDING None)
   \<and> hasStarted ''r'' ''a'' (db exAwaiting)
   \<and> journalGrows (db exAwaiting) (db (snd (completeManualStep ''a'' True exAwaiting)))"
proof -
  let ?s = "(exSleeping, [exSleepingTask])"
  let ?acts = "[CallStartRun ''wf'', CallCompleteManualStep ''b'' True, CallUpdateWorkflow exReordered]"
  let ?sa = "exStepRun ''a'' ''s1'' PENDING None"
  let ?sb = "exStepRun ''b'' ''s2'' PENDING None"
  have h1: "passesStarted ?s" by code_simp
  have n1: "noReuse (CallStartRun ''wf'') ?s" by code_simp
  have n2: "reuseFree [CallCompleteManualStep ''b'' True, CallUpdateWorkflow exReordered]
              (act (CallStartRun ''wf'') ?s)"
    by (rule reuseFree_without_startRun) simp
  from n1 n2 have h2: "reuseFree ?acts ?s" by (simp only: reuseFree.simps simp_thms)
  have h3: "reuseFree [CallCompleteManualStep ''b'' True] ?s"
    by (rule reuseFree_without_startRun) simp
  have e1: "\<not> stepCausal (db (fst (runActions [CallCompleteManualStep ''b'' True] ?s)))"
    by code_simp
  have e2: "map (\<lambda>e. (ev_type e, ev_stepRunId e))
        (events (db (fst (act (Resume 0 (Rejected []))
           (runActions [CallCompleteManualStep ''b'' True] ?s)))))
       = [(RUN_STARTED, None), (RUN_STARTED, None), (STEP_STARTED, Some ''a''),
          (STEP_SUCCEEDED, Some ''b''), (STEP_SUCCEEDED, Some ''a'')]"
    by code_simp
  have d1: "distinct (map sr_id (step_runs (db exAwaiting)))" by code_simp
  have p1: "sr_id ?sa \<in> set (map sr_id (step_runs (db exSleeping)))"
    and p2: "''r'' \<in> set (map wr_id (workflow_runs (db exSleeping)))"
    and p3: "nano exSleeping (nano_used exSleeping) \<notin> set (map ev_id (events (db exSleeping)))"
    by code_simp+
  have ida: "sr_id ?sa = ''a''" and idb: "sr_id ?sb = ''b''"
    and runa: "sr_workflowRunId ?sa = ''r''" and runb: "sr_workflowRunId ?sb = ''r''"
    and sta: "sr_status ?sa = PENDING" and stb: "sr_status ?sb = PENDING"
    by (simp_all add: exStepRun_def)
  have q1: "getStepRunById ''b'' (db exAwaiting) = Some ?sb"
    and q1a: "getStepRunById ''a'' (db exAwaiting) = Some ?sa"
    by (simp_all add: ex_defs getStepRunById_def)
  have q2: "\<not> isTerminal PENDING" by (simp add: isTerminal_def)
  have q3: "''r'' \<in> set (map wr_id (workflow_runs (db exAwaiting)))"
    and q4: "nano exAwaiting (nano_used exAwaiting) \<notin> set (map ev_id (events (db exAwaiting)))"
    and q5: "\<not> hasStarted ''r'' ''b'' (db exAwaiting)"
    and q6: "hasStarted ''r'' ''a'' (db exAwaiting)"
    by code_simp+
  have q2a: "\<not> isTerminal (sr_status ?sa)" and q2b: "\<not> isTerminal (sr_status ?sb)"
    by (simp_all add: sta stb q2)
  have q3a: "sr_workflowRunId ?sa \<in> set (map wr_id (workflow_runs (db exAwaiting)))"
    and q3b: "sr_workflowRunId ?sb \<in> set (map wr_id (workflow_runs (db exAwaiting)))"
    using q3 by (simp_all only: runa runb)
  have evs: "map (\<lambda>e. (ev_type e, ev_stepRunId e)) (events (db exSleeping))
      = [(RUN_STARTED, None), (RUN_STARTED, None), (STEP_STARTED, Some ''a'')]"
    by (simp add: ex_defs)
  note A = step_events_follow_their_start [where s = ?s and acts = ?acts and k = 0
      and fr = "Rejected []", THEN conjunct1, THEN mp, OF conjI [OF h1 h2]]
  note B = step_events_follow_their_start [where s = ?s
      and acts = "[CallCompleteManualStep ''b'' True]" and k = 0
      and fr = "Rejected []", THEN conjunct1, THEN mp, OF conjI [OF h1 h3]]
  note C = step_events_follow_their_start [where w = exAwaiting, THEN conjunct2, THEN conjunct1,
      THEN mp, OF d1]
  note D = step_events_follow_their_start [where w = exSleeping and sr = ?sa and r = "''r''"
      and ty = DELAY and c = "JObj []" and rest = "[exAutoSteps ! 1]" and m = exStepRunMap
      and fr = "Rejected []", THEN conjunct2, THEN conjunct2, THEN conjunct1, THEN mp,
      OF conjI [OF p1 conjI [OF p2 p3]]]
  note E = step_events_follow_their_start [where w = exAwaiting and sr = ?sb and i = "''b''"
      and success = True, THEN conjunct2, THEN conjunct2, THEN conjunct2, THEN mp,
      OF conjI [OF q1 conjI [OF q2b conjI [OF q3b q4]]]]
  note F = step_events_follow_their_start [where w = exAwaiting and sr = ?sa and i = "''a''"
      and success = True, THEN conjunct2, THEN conjunct2, THEN conjunct2, THEN mp,
      OF conjI [OF q1a conjI [OF q2a conjI [OF q3a q4]]]]
  have a1: "passesStarted (runActions ?acts ?s)" by (rule A [THEN conjunct1])
  have a2: "journalGrows (db (fst (runActions ?acts ?s)))
        (db (fst (act (Resume 0 (Rejected [])) (runActions ?acts ?s))))"
    by (rule A [THEN conjunct2, THEN conjunct1])
  have b2: "journalGrows
        (db (fst (runActions [CallCompleteManualStep ''b'' True] ?s)))
        (db (fst (act (Resume 0 (Rejected []))
           (runActions [CallCompleteManualStep ''b'' True] ?s))))"
    by (rule B [THEN conjunct2, THEN conjunct1])
  have c1: "passesStarted (exAwaiting, [])" by (rule C)
  have d2: "fst (runNonManualStep ''r'' ?sa DELAY (JObj []) [exAutoSteps ! 1] exStepRunMap exSleeping)
       = StepPublishStarted ''r'' ?sa DELAY (JObj []) [exAutoSteps ! 1] exStepRunMap"
    by (rule D [THEN conjunct1])
  have d3: "map (\<lambda>e. (ev_type e, ev_stepRunId e))
        (events (db (snd (runNonManualStep ''r'' ?sa DELAY (JObj [])
            [exAutoSteps ! 1] exStepRunMap exSleeping))))
       = [(RUN_STARTED, None), (RUN_STARTED, None), (STEP_STARTED, Some ''a''),
          (STEP_STARTED, Some ''a'')]"
    using D [THEN conjunct2, THEN conjunct1] evs by (simp add: ida)
  have d4: "fst (resume (StepSleeping ''r'' ?sa [exAutoSteps ! 1] exStepRunMap) (Rejected []) exSleeping)
       = [StepPublishDone ''r'' [exAutoSteps ! 1] exStepRunMap]"
    by (rule D [THEN conjunct2, THEN conjunct2, THEN conjunct1])
  have d5: "map (\<lambda>e. (ev_type e, ev_stepRunId e))
        (events (db (snd (resume (StepSleeping ''r'' ?sa [exAutoSteps ! 1] exStepRunMap)
            (Rejected []) exSleeping))))
       = [(RUN_STARTED, None), (RUN_STARTED, None), (STEP_STARTED, Some ''a''),
          (STEP_SUCCEEDED, Some ''a'')]"
    using D [THEN conjunct2, THEN conjunct2, THEN conjunct2] evs by (simp add: ida)
  have e3: "\<not> journalGrows (db exAwaiting) (db (snd (completeManualStep ''b'' True exAwaiting)))"
    using E q5 by (simp add: runb)
  have f3: "journalGrows (db exAwaiting) (db (snd (completeManualStep ''a'' True exAwaiting)))"
    using F q6 by (simp add: runa)
  from p1 have p1': "''a'' \<in> set (map sr_id (step_runs (db exSleeping)))" by (simp add: ida)
  show ?thesis
    by (intro conjI) (fact h1 h2 h3 a1 a2 e1 e2 b2 d1 c1 p1' p2 p3 d2 d3 d4 d5 q1 q1a q2 q3 q4 q5 q6 e3 f3)+
qed

text \<open>
  A step whose id names a member that every object inherits, and for which the run has no
  StepRun, is not skipped: the lookup at line 43 yields that member. A manual step then
  pauses the pass at line 67 with nothing written; an automated step makes the pass throw
  in runNonManualStep, after one reading of the clock.
\<close>

lemma loop_inherited_member:
  assumes "ws_id step = ''constructor''" and "m ''constructor'' = None"
  shows "ws_type step = MANUAL \<Longrightarrow> loop r (step # rest) m w = (ExecSettled r None, w)"
    and "ws_type step \<noteq> MANUAL \<Longrightarrow>
         fst (loop r (step # rest) m w) \<noteq> ExecSettled r None
         \<and> db (snd (loop r (step # rest) m w)) = db w
         \<and> clock_used (snd (loop r (step # rest) m w)) = Suc (clock_used w)"
  using assms by (simp_all add: lookupEntry_def objectPrototypeKeys_def now_def)

end
